theory Spec2Isabelle
  imports Main "HOL-Library.Word"
begin

section \<open>Platform interface\<close>

text \<open>
  The handlers of \<^verbatim>\<open>app_httpd.cpp\<close> talk to the ESP-IDF HTTP server, the camera
  driver and the JPEG encoder. These are libraries outside the repository: each call is
  modelled by the answer the library gives (taken from the environment) and by an event
  in the trace of the handler. Pointers are addresses (\<open>nat\<close>), \<open>0\<close> is \<open>NULL\<close>;
  \<open>size_t\<close>, \<open>uint32_t\<close> and the \<open>int\<close> arguments of \<open>printf\<close> are 32-bit words,
  \<open>uint16_t\<close> is a 16-bit word.
\<close>

datatype esp_err_t = ESP_OK | ESP_FAIL | ESP_ERR nat

datatype pixformat_t =
  PIXFORMAT_RGB565 | PIXFORMAT_YUV422 | PIXFORMAT_GRAYSCALE | PIXFORMAT_JPEG | PIXFORMAT_RGB888

text \<open>\<open>camera_fb_t\<close>: the frame handle itself (\<open>fb_addr\<close>) and the fields the handlers read.\<close>

record camera_fb_t =
  fb_addr :: nat
  fb_buf :: nat
  fb_len :: "32 word"
  fb_format :: pixformat_t
  fb_tv_sec :: "32 word"
  fb_tv_usec :: "32 word"

text \<open>
  What a call \<open>frame2jpg(fb, 80, &_jpg_buf, &_jpg_buf_len)\<close> did: its return value, and
  the values it stored through the two out pointers (\<open>None\<close> when it left them alone).
  A non-null pointer stored through \<open>out\<close> is a heap buffer that now belongs to the caller.
\<close>

record jpg_out =
  conv_ok :: bool
  out_set :: "(nat \<times> 32 word) option"

datatype chunk =
    Boundary
  | Part_header nat
  | Payload nat "32 word"
  | Last_chunk

datatype event =
    Fb_get "camera_fb_t option"
  | Fb_return camera_fb_t
  | Frame2jpg camera_fb_t jpg_out
  | Frame2jpg_cb camera_fb_t bool
  | Free nat
  | Send_chunk chunk esp_err_t
  | Resp_set_type string
  | Resp_set_hdr string string
  | Resp_send nat "32 word" esp_err_t
  | Resp_send_404
  | Resp_send_500
  | Task_delay nat

text \<open>
  \<open>vTaskDelay(ms / portTICK_PERIOD_MS)\<close>: the FreeRTOS macro \<open>portTICK_PERIOD_MS\<close> is not
  part of the repository and is a parameter (\<open>tick\<close>) of every handler that delays; the
  event records the number of ticks.
\<close>

definition delay_ticks :: "nat \<Rightarrow> nat \<Rightarrow> event" where
  "delay_ticks tick ms = Task_delay (ms div tick)"

section \<open>The part header of the stream\<close>

text \<open>
  \<open>snprintf(part_buf, sizeof(part_buf), _STREAM_PART, len, sec, usec)\<close> returns the length
  of the formatted text
  \<^verbatim>\<open>Content-Type: image/jpeg\r\nContent-Length: %u\r\nX-Timestamp: %d.%06d\r\n\r\n\<close>,
  whether or not it fits. The fixed text has 62 characters (26 + 16 + 2 + 13 + 1 + 4).
\<close>

fun ndigits :: "nat \<Rightarrow> nat" where
  "ndigits n = (if n < 10 then 1 else Suc (ndigits (n div 10)))"

declare ndigits.simps [simp del]

definition fmt_u :: "32 word \<Rightarrow> nat" where
  "fmt_u w = ndigits (unat w)"

definition fmt_d :: "32 word \<Rightarrow> nat" where
  "fmt_d w = (if sint w < 0 then Suc (ndigits (nat (- sint w))) else ndigits (nat (sint w)))"

definition fmt_06d :: "32 word \<Rightarrow> nat" where
  "fmt_06d w = max 6 (fmt_d w)"

definition part_hlen :: "32 word \<Rightarrow> 32 word \<Rightarrow> 32 word \<Rightarrow> nat" where
  "part_hlen l sec usec = 62 + fmt_u l + fmt_d sec + fmt_06d usec"

definition sizeof_part_buf :: nat where
  "sizeof_part_buf = 128"

section \<open>Version 1.2: the stream handler\<close>

text \<open>
  The local variables of \<open>stream_handler\<close> together with its function-static
  \<open>error_count\<close>, which keeps its value from one call of the handler to the next.
\<close>

record stream_vars =
  fb :: "camera_fb_t option"
  res :: esp_err_t
  jpg_buf_len :: "32 word"
  jpg_buf :: nat
  ts_sec :: "32 word"
  ts_usec :: "32 word"
  error_count :: "32 word"

text \<open>The answers of the environment during one pass through the loop body.\<close>

record iter_env =
  cam :: "camera_fb_t option"
  jpg :: jpg_out
  snd_boundary :: esp_err_t
  snd_header :: esp_err_t
  snd_payload :: esp_err_t

datatype flow = Break | Continue

text \<open>Lines 518--537: boundary, part header, image data.\<close>

definition send_boundary :: "stream_vars \<Rightarrow> iter_env \<Rightarrow> stream_vars \<times> event list" where
  "send_boundary v e =
     (if res v = ESP_OK
      then (v\<lparr>res := snd_boundary e\<rparr>, [Send_chunk Boundary (snd_boundary e)])
      else (v, []))"

definition send_header :: "stream_vars \<Rightarrow> iter_env \<Rightarrow> stream_vars \<times> event list" where
  "send_header v e =
     (if res v = ESP_OK
      then (let hlen = part_hlen (jpg_buf_len v) (ts_sec v) (ts_usec v) in
            if hlen < sizeof_part_buf
            then (v\<lparr>res := snd_header e\<rparr>, [Send_chunk (Part_header hlen) (snd_header e)])
            else (v\<lparr>res := ESP_FAIL\<rparr>, []))
      else (v, []))"

definition send_payload :: "stream_vars \<Rightarrow> iter_env \<Rightarrow> stream_vars \<times> event list" where
  "send_payload v e =
     (if res v = ESP_OK \<and> jpg_buf v \<noteq> 0 \<and> jpg_buf_len v > 0
      then (v\<lparr>res := snd_payload e\<rparr>,
            [Send_chunk (Payload (jpg_buf v) (jpg_buf_len v)) (snd_payload e)])
      else (v, []))"

text \<open>Lines 539--547: give the frame back, or free the encoder's buffer.\<close>

definition release_buffers :: "stream_vars \<Rightarrow> stream_vars \<times> event list" where
  "release_buffers v =
     (case fb v of
        Some f \<Rightarrow> (v\<lparr>fb := None, jpg_buf := 0\<rparr>, [Fb_return f])
      | None \<Rightarrow>
          if jpg_buf v \<noteq> 0 then (v\<lparr>jpg_buf := 0\<rparr>, [Free (jpg_buf v)]) else (v, []))"

text \<open>Lines 518--555: everything after the JPEG data is at hand.\<close>

definition send_frame ::
  "nat \<Rightarrow> 16 word \<Rightarrow> stream_vars \<Rightarrow> iter_env \<Rightarrow> flow \<times> stream_vars \<times> event list" where
  "send_frame tick d v e =
     (case send_boundary v e of (v1, t1) \<Rightarrow>
      case send_header v1 e of (v2, t2) \<Rightarrow>
      case send_payload v2 e of (v3, t3) \<Rightarrow>
      case release_buffers v3 of (v4, t4) \<Rightarrow>
        if res v4 \<noteq> ESP_OK then (Break, v4, t1 @ t2 @ t3 @ t4)
        else (Continue, v4, t1 @ t2 @ t3 @ t4 @ [delay_ticks tick (unat d)]))"

text \<open>Lines 499--512: a frame that is not JPEG is converted and given back at once.\<close>

definition convert_frame ::
  "stream_vars \<Rightarrow> camera_fb_t \<Rightarrow> jpg_out \<Rightarrow> stream_vars \<times> event list" where
  "convert_frame v f j =
     (let v1 = (case out_set j of
                  Some (p, l) \<Rightarrow> v\<lparr>jpg_buf := p, jpg_buf_len := l\<rparr>
                | None \<Rightarrow> v)
      in (v1\<lparr>fb := None\<rparr>, [Frame2jpg f j, Fb_return f]))"

definition convert_failed :: "stream_vars \<Rightarrow> jpg_out \<Rightarrow> bool" where
  "convert_failed v j = (\<not> conv_ok j \<or> jpg_buf v = 0 \<or> jpg_buf_len v = 0)"

text \<open>Lines 481--555: one pass through the body of \<open>while (true)\<close>.\<close>

definition stream_iter ::
  "nat \<Rightarrow> 16 word \<Rightarrow> stream_vars \<Rightarrow> iter_env \<Rightarrow> flow \<times> stream_vars \<times> event list" where
  "stream_iter tick d v e =
     (case cam e of
        None \<Rightarrow>
          (let v1 = v\<lparr>fb := None, error_count := error_count v + 1\<rparr> in
           if error_count v1 > 10
           then (Break, v1\<lparr>res := ESP_FAIL\<rparr>, [Fb_get None])
           else (Continue, v1, [Fb_get None, delay_ticks tick 50]))
      | Some f \<Rightarrow>
          (let v1 = v\<lparr>fb := Some f, error_count := 0,
                      ts_sec := fb_tv_sec f, ts_usec := fb_tv_usec f\<rparr> in
           if fb_format f \<noteq> PIXFORMAT_JPEG
           then (case convert_frame v1 f (jpg e) of (v2, t2) \<Rightarrow>
                   if convert_failed v2 (jpg e)
                   then (if jpg_buf v2 \<noteq> 0
                         then (Break, v2\<lparr>jpg_buf := 0, res := ESP_FAIL\<rparr>,
                               Fb_get (Some f) # t2 @ [Free (jpg_buf v2)])
                         else (Break, v2\<lparr>res := ESP_FAIL\<rparr>, Fb_get (Some f) # t2))
                   else (case send_frame tick d v2 e of
                           (fl, v3, t3) \<Rightarrow> (fl, v3, Fb_get (Some f) # t2 @ t3)))
           else (case send_frame tick d
                        (v1\<lparr>jpg_buf_len := fb_len f, jpg_buf := fb_buf f\<rparr>) e of
                   (fl, v3, t3) \<Rightarrow> (fl, v3, Fb_get (Some f) # t3))))"

text \<open>
  The loop runs for as long as the environment's script has answers; the first component
  of the result tells whether the loop was left (\<open>True\<close>) or is still running when the
  script ends (\<open>False\<close>).
\<close>

fun stream_loop ::
  "nat \<Rightarrow> 16 word \<Rightarrow> stream_vars \<Rightarrow> iter_env list \<Rightarrow> bool \<times> stream_vars \<times> event list" where
  "stream_loop tick d v [] = (False, v, [])"
| "stream_loop tick d v (e # es) =
     (case stream_iter tick d v e of
        (Break, v1, t1) \<Rightarrow> (True, v1, t1)
      | (Continue, v1, t1) \<Rightarrow>
          (case stream_loop tick d v1 es of (b, v2, t2) \<Rightarrow> (b, v2, t1 @ t2)))"

text \<open>Lines 558--566: the cleanup after the loop.\<close>

definition stream_cleanup :: "stream_vars \<Rightarrow> stream_vars \<times> event list" where
  "stream_cleanup v =
     (case (case fb v of Some f \<Rightarrow> (v\<lparr>fb := None\<rparr>, [Fb_return f]) | None \<Rightarrow> (v, [])) of
        (v1, t1) \<Rightarrow>
          if jpg_buf v1 \<noteq> 0 \<and> fb v1 = None
          then (v1\<lparr>jpg_buf := 0\<rparr>, t1 @ [Free (jpg_buf v1)])
          else (v1, t1))"

datatype handler_result = Returned esp_err_t | Serving

definition stream_type :: string where
  "stream_type = ''multipart/x-mixed-replace; boundary=frame''"

definition stream_start :: "32 word \<Rightarrow> stream_vars" where
  "stream_start ec =
     \<lparr>fb = None, res = ESP_OK, jpg_buf_len = 0, jpg_buf = 0, ts_sec = 0, ts_usec = 0,
      error_count = ec\<rparr>"

text \<open>
  \<open>stream_handler tick d ec st envs\<close>: one call of the handler, with the value \<open>ec\<close> of the
  static counter when the call starts, the answer \<open>st\<close> of \<open>httpd_resp_set_type\<close> and the
  script of the environment. It yields the handler's return value (or \<open>Serving\<close>), the
  value of the static counter afterwards, and the trace.
\<close>

definition stream_handler ::
  "nat \<Rightarrow> 16 word \<Rightarrow> 32 word \<Rightarrow> esp_err_t \<Rightarrow> iter_env list
     \<Rightarrow> handler_result \<times> 32 word \<times> event list" where
  "stream_handler tick d ec st envs =
     (if st \<noteq> ESP_OK then (Returned st, ec, [Resp_set_type stream_type])
      else
        (let hdr = [Resp_set_type stream_type,
                    Resp_set_hdr ''Access-Control-Allow-Origin'' ''*'',
                    Resp_set_hdr ''Cache-Control'' ''no-store, no-cache, must-revalidate'']
         in case stream_loop tick d (stream_start ec) envs of
              (True, v, t) \<Rightarrow>
                (case stream_cleanup v of
                   (v1, t1) \<Rightarrow> (Returned (res v1), error_count v1, hdr @ t @ t1))
            | (False, v, t) \<Rightarrow> (Serving, error_count v, hdr @ t)))"

section \<open>Version 1.2: the capture handler\<close>

definition MAX_RETRIES :: nat where
  "MAX_RETRIES = 3"

definition RETRY_DELAY_MS :: nat where
  "RETRY_DELAY_MS = 50"

text \<open>
  Lines 416--424. \<open>shots i\<close> is the answer of the \<open>i\<close>-th call of \<open>esp_camera_fb_get\<close>
  (counted from 0) during this request.
\<close>

function retry_loop ::
  "nat \<Rightarrow> (nat \<Rightarrow> camera_fb_t option) \<Rightarrow> nat \<Rightarrow> camera_fb_t option \<times> event list" where
  "retry_loop tick shots retry =
     (if retry < MAX_RETRIES
      then (case shots retry of
              Some f \<Rightarrow> (Some f, [Fb_get (Some f)])
            | None \<Rightarrow>
                (case retry_loop tick shots (Suc retry) of
                   (r, t) \<Rightarrow>
                     (r, Fb_get None #
                         (if retry < MAX_RETRIES - 1
                          then [delay_ticks tick RETRY_DELAY_MS] else []) @ t)))
      else (None, []))"
  by pat_completeness auto
termination
  by (relation "measure (\<lambda>(tick, shots, retry). MAX_RETRIES - retry)") auto

declare retry_loop.simps [simp del]

text \<open>
  The answers of the HTTP server and of the streaming encoder while the frame is sent.
\<close>

record send_env =
  resp_send :: esp_err_t
  cb_ok :: bool
  last_chunk :: esp_err_t

definition capture_headers :: "event list" where
  "capture_headers =
     [Resp_set_type ''image/jpeg'',
      Resp_set_hdr ''Content-Disposition'' ''inline; filename=capture.jpg'',
      Resp_set_hdr ''Access-Control-Allow-Origin'' ''*'',
      Resp_set_hdr ''Cache-Control'' ''no-store, no-cache, must-revalidate, max-age=0'',
      Resp_set_hdr ''Pragma'' ''no-cache'',
      Resp_set_hdr ''Expires'' ''0'']"

definition capture_handler ::
  "nat \<Rightarrow> (nat \<Rightarrow> camera_fb_t option) \<Rightarrow> send_env \<Rightarrow> esp_err_t \<times> event list" where
  "capture_handler tick shots s =
     (case retry_loop tick shots 0 of
        (None, t) \<Rightarrow> (ESP_FAIL, t @ [Resp_send_500])
      | (Some f, t) \<Rightarrow>
          (if fb_format f = PIXFORMAT_JPEG
           then (resp_send s,
                 t @ capture_headers @
                 [Resp_send (fb_buf f) (fb_len f) (resp_send s), Fb_return f])
           else ((if cb_ok s then ESP_OK else ESP_FAIL),
                 t @ capture_headers @
                 [Frame2jpg_cb f (cb_ok s), Send_chunk Last_chunk (last_chunk s),
                  Fb_return f])))"

section \<open>Ownership of frames and buffers\<close>

text \<open>
  The ledger of what the handler holds: the frames taken from the pool and the buffers
  handed over by the encoder. A give-back of a frame that is not held, or a \<open>free\<close> of an
  address that is not a held encoder buffer, has no successor state.
\<close>

fun own_step ::
  "camera_fb_t list \<times> nat list \<Rightarrow> event \<Rightarrow> (camera_fb_t list \<times> nat list) option" where
  "own_step (fs, bs) (Fb_get (Some f)) = Some (f # fs, bs)"
| "own_step (fs, bs) (Fb_return f) =
     (if f \<in> set fs then Some (remove1 f fs, bs) else None)"
| "own_step (fs, bs) (Frame2jpg f j) =
     (case out_set j of
        Some (p, l) \<Rightarrow> if p \<noteq> 0 then Some (fs, p # bs) else Some (fs, bs)
      | None \<Rightarrow> Some (fs, bs))"
| "own_step (fs, bs) (Free p) =
     (if p \<in> set bs then Some (fs, remove1 p bs) else None)"
| "own_step (fs, bs) _ = Some (fs, bs)"

fun own_run ::
  "camera_fb_t list \<times> nat list \<Rightarrow> event list \<Rightarrow> (camera_fb_t list \<times> nat list) option" where
  "own_run s [] = Some s"
| "own_run s (x # xs) = (case own_step s x of None \<Rightarrow> None | Some s1 \<Rightarrow> own_run s1 xs)"

definition balanced :: "event list \<Rightarrow> bool" where
  "balanced t = (own_run ([], []) t = Some ([], []))"


section \<open>Version 1.1: capture and stream handlers\<close>


text \<open>
  The locals of the version 1.1 \<open>stream_handler\<close> and its two function-statics
  \<open>last_frame\<close> (\<open>int64_t\<close>) and \<open>frame_counter\<close>. The calls of \<open>log_e\<close> and \<open>log_i\<close> only
  print and are left out.
\<close>

record stream_vars_v11 =
  fb_v11 :: "camera_fb_t option"
  res_v11 :: esp_err_t
  jpg_buf_len_v11 :: "32 word"
  jpg_buf_v11 :: nat
  ts_sec_v11 :: "32 word"
  ts_usec_v11 :: "32 word"
  last_frame :: "64 word"
  frame_counter :: "32 word"

record iter_env_v11 = iter_env +
  timer_now :: "64 word"

text \<open>Lines 92--111.\<close>

definition acquire_v11 :: "stream_vars_v11 \<Rightarrow> iter_env_v11 \<Rightarrow> stream_vars_v11 \<times> event list" where
  "acquire_v11 v e =
     (case cam e of
        None \<Rightarrow> (v\<lparr>fb_v11 := None, res_v11 := ESP_FAIL\<rparr>, [Fb_get None])
      | Some f \<Rightarrow>
          (let v1 = v\<lparr>fb_v11 := Some f, ts_sec_v11 := fb_tv_sec f, ts_usec_v11 := fb_tv_usec f\<rparr>
           in if fb_format f \<noteq> PIXFORMAT_JPEG
              then (let v2 = (case out_set (jpg e) of
                                Some (p, l) \<Rightarrow> v1\<lparr>jpg_buf_v11 := p, jpg_buf_len_v11 := l\<rparr>
                              | None \<Rightarrow> v1);
                        v3 = v2\<lparr>fb_v11 := None\<rparr>
                    in ((if \<not> conv_ok (jpg e) then v3\<lparr>res_v11 := ESP_FAIL\<rparr> else v3),
                        [Fb_get (Some f), Frame2jpg f (jpg e), Fb_return f]))
              else (v1\<lparr>jpg_buf_len_v11 := fb_len f, jpg_buf_v11 := fb_buf f\<rparr>,
                    [Fb_get (Some f)])))"

text \<open>Lines 113--122.\<close>

definition send_parts_v11 :: "stream_vars_v11 \<Rightarrow> iter_env_v11 \<Rightarrow> stream_vars_v11 \<times> event list" where
  "send_parts_v11 v e =
     (let (v1, t1) = (if res_v11 v = ESP_OK
                      then (v\<lparr>res_v11 := snd_boundary e\<rparr>,
                            [Send_chunk Boundary (snd_boundary e)])
                      else (v, []));
          (v2, t2) = (if res_v11 v1 = ESP_OK
                      then (v1\<lparr>res_v11 := snd_header e\<rparr>,
                            [Send_chunk
                               (Part_header
                                  (part_hlen (jpg_buf_len_v11 v1) (ts_sec_v11 v1) (ts_usec_v11 v1)))
                               (snd_header e)])
                      else (v1, []));
          (v3, t3) = (if res_v11 v2 = ESP_OK
                      then (v2\<lparr>res_v11 := snd_payload e\<rparr>,
                            [Send_chunk (Payload (jpg_buf_v11 v2) (jpg_buf_len_v11 v2))
                               (snd_payload e)])
                      else (v2, []))
      in (v3, t1 @ t2 @ t3))"

text \<open>Lines 124--131.\<close>

definition release_buffers_v11 :: "stream_vars_v11 \<Rightarrow> stream_vars_v11 \<times> event list" where
  "release_buffers_v11 v =
     (case fb_v11 v of
        Some f \<Rightarrow> (v\<lparr>fb_v11 := None, jpg_buf_v11 := 0\<rparr>, [Fb_return f])
      | None \<Rightarrow>
          if jpg_buf_v11 v \<noteq> 0 then (v\<lparr>jpg_buf_v11 := 0\<rparr>, [Free (jpg_buf_v11 v)])
          else (v, []))"

text \<open>Lines 137--148: the frame statistics and the pacing of version 1.1.\<close>

definition pace_v11 ::
  "nat \<Rightarrow> 16 word \<Rightarrow> stream_vars_v11 \<Rightarrow> iter_env_v11 \<Rightarrow> stream_vars_v11 \<times> event list" where
  "pace_v11 tick d v e =
     (let v1 = (if last_frame v \<noteq> 0 then v\<lparr>frame_counter := frame_counter v + 1\<rparr> else v)
      in (v1\<lparr>last_frame := timer_now e\<rparr>,
          (if d > 0 then [delay_ticks tick (unat d)] else [])))"

definition stream_iter_v11 ::
  "nat \<Rightarrow> 16 word \<Rightarrow> stream_vars_v11 \<Rightarrow> iter_env_v11
     \<Rightarrow> flow \<times> stream_vars_v11 \<times> event list" where
  "stream_iter_v11 tick d v e =
     (case acquire_v11 v e of (v1, t1) \<Rightarrow>
      case send_parts_v11 v1 e of (v2, t2) \<Rightarrow>
      case release_buffers_v11 v2 of (v3, t3) \<Rightarrow>
        if res_v11 v3 \<noteq> ESP_OK then (Break, v3, t1 @ t2 @ t3)
        else (case pace_v11 tick d v3 e of
                (v4, t4) \<Rightarrow> (Continue, v4, t1 @ t2 @ t3 @ t4)))"

fun stream_loop_v11 ::
  "nat \<Rightarrow> 16 word \<Rightarrow> stream_vars_v11 \<Rightarrow> iter_env_v11 list
     \<Rightarrow> bool \<times> stream_vars_v11 \<times> event list" where
  "stream_loop_v11 tick d v [] = (False, v, [])"
| "stream_loop_v11 tick d v (e # es) =
     (case stream_iter_v11 tick d v e of
        (Break, v1, t1) \<Rightarrow> (True, v1, t1)
      | (Continue, v1, t1) \<Rightarrow>
          (case stream_loop_v11 tick d v1 es of (b, v2, t2) \<Rightarrow> (b, v2, t1 @ t2)))"

definition stream_type_v11 :: string where
  "stream_type_v11 = ''multipart/x-mixed-replace;boundary=123456789000000000000987654321''"

definition stream_start_v11 :: "64 word \<Rightarrow> 32 word \<Rightarrow> stream_vars_v11" where
  "stream_start_v11 lf fc =
     \<lparr>fb_v11 = None, res_v11 = ESP_OK, jpg_buf_len_v11 = 0, jpg_buf_v11 = 0,
      ts_sec_v11 = 0, ts_usec_v11 = 0, last_frame = lf, frame_counter = fc\<rparr>"

definition stream_handler_v11 ::
  "nat \<Rightarrow> 16 word \<Rightarrow> 64 word \<Rightarrow> 32 word \<Rightarrow> esp_err_t \<Rightarrow> iter_env_v11 list
     \<Rightarrow> handler_result \<times> (64 word \<times> 32 word) \<times> event list" where
  "stream_handler_v11 tick d lf fc st envs =
     (if st \<noteq> ESP_OK then (Returned st, (lf, fc), [Resp_set_type stream_type_v11])
      else
        (let hdr = [Resp_set_type stream_type_v11,
                    Resp_set_hdr ''Access-Control-Allow-Origin'' ''*'']
         in case stream_loop_v11 tick d (stream_start_v11 lf fc) envs of
              (True, v, t) \<Rightarrow>
                (Returned (res_v11 v), (last_frame v, frame_counter v), hdr @ t)
            | (False, v, t) \<Rightarrow> (Serving, (last_frame v, frame_counter v), hdr @ t)))"

section \<open>Version 1.2: the control handler\<close>

text \<open>
  \<open>strcasecmp(a, b) == 0\<close> and \<open>atoi\<close> of the C library. \<open>atoi\<close> skips white space, reads
  an optional sign and the decimal digits that follow, and (as \<open>strtol\<close> does on the
  32-bit target) stays within the range of \<open>int\<close>.
\<close>

definition tolower :: "char \<Rightarrow> char" where
  "tolower c =
     (case map_of (zip ''ABCDEFGHIJKLMNOPQRSTUVWXYZ'' ''abcdefghijklmnopqrstuvwxyz'') c of
        Some l \<Rightarrow> l
      | None \<Rightarrow> c)"

definition strcasecmp_eq :: "string \<Rightarrow> string \<Rightarrow> bool" where
  "strcasecmp_eq a b = (map tolower a = map tolower b)"

definition isspace :: "char \<Rightarrow> bool" where
  "isspace c = (let n = (of_char c :: nat) in n = 32 \<or> (9 \<le> n \<and> n \<le> 13))"

definition digit_of :: "char \<Rightarrow> nat option" where
  "digit_of c =
     (let n = (of_char c :: nat) in if 48 \<le> n \<and> n \<le> 57 then Some (n - 48) else None)"

fun digits_val :: "int \<Rightarrow> string \<Rightarrow> int" where
  "digits_val acc [] = acc"
| "digits_val acc (c # cs) =
     (case digit_of c of None \<Rightarrow> acc | Some k \<Rightarrow> digits_val (10 * acc + int k) cs)"

definition atoi :: "string \<Rightarrow> int" where
  "atoi s =
     (case dropWhile isspace s of
        [] \<Rightarrow> 0
      | c # cs \<Rightarrow>
          if c = CHR ''-'' then max (- 2147483648) (- digits_val 0 cs)
          else if c = CHR ''+'' then min 2147483647 (digits_val 0 cs)
          else min 2147483647 (digits_val 0 (c # cs)))"

text \<open>
  The values of the \<open>framesize_t\<close> constants come from the camera driver's header, which
  is not part of the repository: they are parameters.
\<close>

record framesizes =
  FRAMESIZE_SVGA :: int
  FRAMESIZE_FHD :: int
  FRAMESIZE_INVALID :: int

text \<open>Lines 584--601.\<close>

definition framesize_from_value :: "framesizes \<Rightarrow> string option \<Rightarrow> int" where
  "framesize_from_value K v =
     (case v of
        None \<Rightarrow> FRAMESIZE_SVGA K
      | Some s \<Rightarrow>
          if strcasecmp_eq s ''svga'' then FRAMESIZE_SVGA K
          else if strcasecmp_eq s ''fhd'' \<or> strcasecmp_eq s ''1080p'' then FRAMESIZE_FHD K
          else (let idx = atoi s in
                if idx \<ge> 0 \<and> idx < FRAMESIZE_INVALID K then idx else FRAMESIZE_SVGA K))"

text \<open>
  The Capture Configuration: the \<open>status\<close> fields of the sensor (when
  \<open>esp_camera_sensor_get\<close> yields a sensor) and the global \<open>stream_delay_ms\<close>.
\<close>

record sensor_status =
  framesize :: int
  quality :: int
  vflip :: int
  hmirror :: int

record capture_config =
  sensor :: "sensor_status option"
  stream_delay_ms :: "16 word"

text \<open>
  A request to \<open>/control\<close> as the handler sees it: the length of the query string, whether
  \<open>malloc\<close> gave a buffer, the answers of \<open>httpd_req_get_url_query_str\<close> and of the two
  calls of \<open>httpd_query_key_value\<close> (the text found, \<open>None\<close> for any answer other than
  \<open>ESP_OK\<close>), \<open>psramFound()\<close>, the answer of the sensor's setter if one is called, and the
  answer of the final \<open>httpd_resp_send\<close>.
\<close>

record control_req =
  query_len :: nat
  malloc_ok :: bool
  query_str :: esp_err_t
  var_key :: "string option"
  val_key :: "string option"
  psram :: bool
  drv :: esp_err_t
  resp :: esp_err_t

datatype setter = Set_framesize | Set_quality | Set_vflip | Set_hmirror

datatype control_event =
    Sensor_set setter int esp_err_t
  | Ctl_send_404
  | Ctl_send_500
  | Ctl_set_hdr string string
  | Ctl_send_empty esp_err_t

text \<open>
  A setter of the sensor driver stores the value in the sensor's status when it answers
  \<open>ESP_OK\<close> and leaves the status alone otherwise.
\<close>

definition sensor_set :: "setter \<Rightarrow> int \<Rightarrow> esp_err_t \<Rightarrow> sensor_status \<Rightarrow> sensor_status" where
  "sensor_set k x r s =
     (if r \<noteq> ESP_OK then s
      else case k of
             Set_framesize \<Rightarrow> s\<lparr>framesize := x\<rparr>
           | Set_quality \<Rightarrow> s\<lparr>quality := x\<rparr>
           | Set_vflip \<Rightarrow> s\<lparr>vflip := x\<rparr>
           | Set_hmirror \<Rightarrow> s\<lparr>hmirror := x\<rparr>)"

definition clamp :: "int \<Rightarrow> int \<Rightarrow> int \<Rightarrow> int" where
  "clamp lo hi x = (let y = (if x < lo then lo else x) in if y > hi then hi else y)"

text \<open>Lines 652--685: the result code, the new configuration and the driver calls.\<close>

definition apply_control ::
  "framesizes \<Rightarrow> control_req \<Rightarrow> string \<Rightarrow> string \<Rightarrow> sensor_status \<Rightarrow> 16 word
     \<Rightarrow> esp_err_t \<times> sensor_status \<times> 16 word \<times> control_event list" where
  "apply_control K rq variable val_text s dl =
     (let val = atoi val_text in
      if variable = ''framesize'' then
        (let target = framesize_from_value K (Some val_text);
             target = (if \<not> psram rq \<and> target > FRAMESIZE_SVGA K
                       then FRAMESIZE_SVGA K else target)
         in (drv rq, sensor_set Set_framesize target (drv rq) s, dl,
             [Sensor_set Set_framesize target (drv rq)]))
      else if variable = ''quality'' then
        (let val = clamp 5 63 val
         in (drv rq, sensor_set Set_quality val (drv rq) s, dl,
             [Sensor_set Set_quality val (drv rq)]))
      else if variable = ''stream_delay'' then
        (let val = clamp 33 500 val in (ESP_OK, s, word_of_int val, []))
      else if variable = ''vflip'' then
        (let val = clamp 0 1 val
         in (drv rq, sensor_set Set_vflip val (drv rq) s, dl,
             [Sensor_set Set_vflip val (drv rq)]))
      else if variable = ''hmirror'' then
        (let val = clamp 0 1 val
         in (drv rq, sensor_set Set_hmirror val (drv rq) s, dl,
             [Sensor_set Set_hmirror val (drv rq)]))
      else (ESP_FAIL, s, dl, []))"

text \<open>Lines 618--694. The query buffer is allocated and freed inside the handler.\<close>

definition cmd_handler ::
  "framesizes \<Rightarrow> control_req \<Rightarrow> capture_config
     \<Rightarrow> esp_err_t \<times> capture_config \<times> control_event list" where
  "cmd_handler K rq c =
     (if query_len rq = 0 then (ESP_FAIL, c, [Ctl_send_404])
      else if \<not> malloc_ok rq then (ESP_FAIL, c, [Ctl_send_500])
      else
        (case (query_str rq, var_key rq, val_key rq) of
           (ESP_OK, Some variable, Some val_text) \<Rightarrow>
             (case sensor c of
                None \<Rightarrow> (ESP_FAIL, c, [Ctl_send_500])
              | Some s \<Rightarrow>
                  (case apply_control K rq variable val_text s (stream_delay_ms c) of
                     (r, s1, dl, t) \<Rightarrow>
                       (let c1 = c\<lparr>sensor := Some s1, stream_delay_ms := dl\<rparr> in
                        if r \<noteq> ESP_OK then (ESP_FAIL, c1, t @ [Ctl_send_500])
                        else (resp rq, c1,
                              t @ [Ctl_set_hdr ''Access-Control-Allow-Origin'' ''*'',
                                   Ctl_send_empty (resp rq)]))))
         | _ \<Rightarrow> (ESP_FAIL, c, [Ctl_send_404])))"

text \<open>The status line of the response a control trace ends with.\<close>

fun http_status :: "control_event \<Rightarrow> nat option" where
  "http_status Ctl_send_404 = Some 404"
| "http_status Ctl_send_500 = Some 500"
| "http_status (Ctl_send_empty r) = Some 200"
| "http_status _ = None"

definition response_status :: "control_event list \<Rightarrow> nat option" where
  "response_status t = (case t of [] \<Rightarrow> None | _ \<Rightarrow> http_status (last t))"

definition client_error :: "nat option \<Rightarrow> bool" where
  "client_error r = (case r of Some n \<Rightarrow> 400 \<le> n \<and> n < 500 | None \<Rightarrow> False)"

definition server_error :: "nat option \<Rightarrow> bool" where
  "server_error r = (case r of Some n \<Rightarrow> 500 \<le> n \<and> n < 600 | None \<Rightarrow> False)"

definition recognized :: "string \<Rightarrow> bool" where
  "recognized variable =
     (variable \<in> set [''framesize'', ''quality'', ''stream_delay'', ''vflip'', ''hmirror''])"

section \<open>Starting the servers\<close>













section \<open>Counting what a trace holds\<close>

fun is_acquired :: "event \<Rightarrow> bool" where
  "is_acquired (Fb_get (Some f)) = True"
| "is_acquired _ = False"

fun is_returned :: "event \<Rightarrow> bool" where
  "is_returned (Fb_return f) = True"
| "is_returned _ = False"

fun is_handed_over :: "event \<Rightarrow> bool" where
  "is_handed_over (Frame2jpg f j) =
     (case out_set j of Some (p, l) \<Rightarrow> p \<noteq> 0 | None \<Rightarrow> False)"
| "is_handed_over _ = False"

fun is_freed :: "event \<Rightarrow> bool" where
  "is_freed (Free p) = True"
| "is_freed _ = False"

definition count :: "(event \<Rightarrow> bool) \<Rightarrow> event list \<Rightarrow> nat" where
  "count P t = length (filter P t)"

definition stream_trace ::
  "nat \<Rightarrow> 16 word \<Rightarrow> 32 word \<Rightarrow> esp_err_t \<Rightarrow> iter_env list \<Rightarrow> event list" where
  "stream_trace tick d ec st envs = snd (snd (stream_handler tick d ec st envs))"

definition capture_trace ::
  "nat \<Rightarrow> (nat \<Rightarrow> camera_fb_t option) \<Rightarrow> send_env \<Rightarrow> event list" where
  "capture_trace tick shots s = snd (capture_handler tick shots s)"

section \<open>Sample inputs\<close>

definition jpeg_frame :: camera_fb_t where
  "jpeg_frame =
     \<lparr>fb_addr = 4096, fb_buf = 8192, fb_len = 1000, fb_format = PIXFORMAT_JPEG,
      fb_tv_sec = 12, fb_tv_usec = 345\<rparr>"

definition raw_frame :: camera_fb_t where
  "raw_frame =
     \<lparr>fb_addr = 4096, fb_buf = 8192, fb_len = 64000, fb_format = PIXFORMAT_RGB565,
      fb_tv_sec = 13, fb_tv_usec = 678\<rparr>"

definition encoded :: jpg_out where
  "encoded = \<lparr>conv_ok = True, out_set = Some (20480, 700)\<rparr>"

definition not_encoded :: jpg_out where
  "not_encoded = \<lparr>conv_ok = False, out_set = None\<rparr>"

definition env_good :: "camera_fb_t \<Rightarrow> iter_env" where
  "env_good f =
     \<lparr>cam = Some f, jpg = encoded, snd_boundary = ESP_OK, snd_header = ESP_OK,
      snd_payload = ESP_OK\<rparr>"

definition env_no_frame :: iter_env where
  "env_no_frame =
     \<lparr>cam = None, jpg = not_encoded, snd_boundary = ESP_OK, snd_header = ESP_OK,
      snd_payload = ESP_OK\<rparr>"

definition env_gone :: "camera_fb_t \<Rightarrow> iter_env" where
  "env_gone f =
     \<lparr>cam = Some f, jpg = encoded, snd_boundary = ESP_OK, snd_header = ESP_OK,
      snd_payload = ESP_FAIL\<rparr>"

definition env_bad_encode :: iter_env where
  "env_bad_encode =
     \<lparr>cam = Some raw_frame, jpg = not_encoded, snd_boundary = ESP_OK, snd_header = ESP_OK,
      snd_payload = ESP_OK\<rparr>"

definition send_fine :: send_env where
  "send_fine = \<lparr>resp_send = ESP_OK, cb_ok = True, last_chunk = ESP_OK\<rparr>"

text \<open>A camera that has no frame for the first \<open>k\<close> calls and \<open>f\<close> afterwards.\<close>

definition late_camera :: "nat \<Rightarrow> camera_fb_t \<Rightarrow> nat \<Rightarrow> camera_fb_t option" where
  "late_camera k f i = (if i < k then None else Some f)"

definition sample_script :: "iter_env list" where
  "sample_script =
     [env_good jpeg_frame, env_no_frame, env_good raw_frame, env_gone raw_frame]"

section \<open>Invariants of the stream loop\<close>

text \<open>
  Between two passes of the loop the handler holds neither a frame nor a buffer; \<open>ledger\<close>
  adds what the variables of the handler hold to a ledger.
\<close>

definition idle :: "stream_vars \<Rightarrow> bool" where
  "idle v = (fb v = None \<and> jpg_buf v = 0)"

definition ledger ::
  "stream_vars \<Rightarrow> camera_fb_t list \<times> nat list \<Rightarrow> camera_fb_t list \<times> nat list" where
  "ledger v s =
     (case fb v of
        Some f \<Rightarrow> (f # fst s, snd s)
      | None \<Rightarrow> if jpg_buf v \<noteq> 0 then (fst s, jpg_buf v # snd s) else s)"

definition running :: "stream_vars \<Rightarrow> bool" where
  "running v = (idle v \<and> res v = ESP_OK)"

section \<open>The stream session as a state machine\<close>

text \<open>
  The three guards under which a session is closed, in the words of the specification.
  \<open>frame_encoded\<close>: the encoder reported success and handed over a non-empty buffer.
  \<open>ready\<close>: a frame was acquired and is at hand as JPEG data. \<open>send_error\<close>: the answer of
  the first chunk send of the pass that failed (boundary, part header, image data;
  the image data of an empty JPEG frame is not sent), \<open>ESP_OK\<close> if none failed.
\<close>

definition frame_encoded :: "jpg_out \<Rightarrow> bool" where
  "frame_encoded j =
     (conv_ok j \<and> (case out_set j of Some (p, l) \<Rightarrow> p \<noteq> 0 \<and> l \<noteq> 0 | None \<Rightarrow> False))"

definition ready :: "iter_env \<Rightarrow> bool" where
  "ready e =
     (case cam e of
        None \<Rightarrow> False
      | Some f \<Rightarrow> fb_format f = PIXFORMAT_JPEG \<or> frame_encoded (jpg e))"

definition has_payload :: "iter_env \<Rightarrow> bool" where
  "has_payload e =
     (case cam e of
        None \<Rightarrow> False
      | Some f \<Rightarrow> fb_format f \<noteq> PIXFORMAT_JPEG \<or> (fb_buf f \<noteq> 0 \<and> fb_len f \<noteq> 0))"

definition send_error :: "iter_env \<Rightarrow> esp_err_t" where
  "send_error e =
     (if snd_boundary e \<noteq> ESP_OK then snd_boundary e
      else if snd_header e \<noteq> ESP_OK then snd_header e
      else if has_payload e then snd_payload e
      else ESP_OK)"

definition send_failure :: "iter_env \<Rightarrow> bool" where
  "send_failure e = (ready e \<and> send_error e \<noteq> ESP_OK)"

definition acquire_abort :: "32 word \<Rightarrow> iter_env \<Rightarrow> bool" where
  "acquire_abort c e = (cam e = None \<and> c + 1 > 10)"

definition encode_failure :: "iter_env \<Rightarrow> bool" where
  "encode_failure e =
     (case cam e of
        None \<Rightarrow> False
      | Some f \<Rightarrow> fb_format f \<noteq> PIXFORMAT_JPEG \<and> \<not> frame_encoded (jpg e))"

text \<open>The counter of acquisition failures in a row after one more answer of the camera.\<close>

definition next_count :: "32 word \<Rightarrow> iter_env \<Rightarrow> 32 word" where
  "next_count c e = (case cam e of None \<Rightarrow> c + 1 | Some f \<Rightarrow> 0)"

text \<open>
  The state machine of the specification: \<open>Running\<close> until one of the three guards holds,
  then \<open>Closed\<close> with the result of the handler; \<open>Serving\<close> when the script ends first.
\<close>

fun session_end :: "32 word \<Rightarrow> iter_env list \<Rightarrow> handler_result" where
  "session_end c [] = Serving"
| "session_end c (e # es) =
     (if send_failure e then Returned (send_error e)
      else if acquire_abort c e then Returned ESP_FAIL
      else if encode_failure e then Returned ESP_FAIL
      else session_end (next_count c e) es)"

text \<open>The static counter across the sessions of one boot, in the order they are served.\<close>

fun run_sessions :: "nat \<Rightarrow> 16 word \<Rightarrow> 32 word \<Rightarrow> iter_env list list \<Rightarrow> 32 word" where
  "run_sessions tick d c [] = c"
| "run_sessions tick d c (es # ss) =
     run_sessions tick d (fst (snd (stream_handler tick d c ESP_OK es))) ss"

fun is_boundary :: "event \<Rightarrow> bool" where
  "is_boundary (Send_chunk Boundary r) = True"
| "is_boundary _ = False"

fun is_boundary_sent :: "event \<Rightarrow> bool" where
  "is_boundary_sent (Send_chunk Boundary ESP_OK) = True"
| "is_boundary_sent _ = False"

fun is_ready :: "event \<Rightarrow> bool" where
  "is_ready (Fb_get (Some f)) = (fb_format f = PIXFORMAT_JPEG)"
| "is_ready (Frame2jpg f j) = frame_encoded j"
| "is_ready _ = False"

fun is_delivered :: "event \<Rightarrow> bool" where
  "is_delivered (Send_chunk (Payload p l) ESP_OK) = True"
| "is_delivered _ = False"

fun is_delay :: "event \<Rightarrow> bool" where
  "is_delay (Task_delay n) = True"
| "is_delay _ = False"

text \<open>A pass in which a frame with image data is at hand and every send succeeds.\<close>

definition delivers :: "iter_env \<Rightarrow> bool" where
  "delivers e =
     (ready e \<and> has_payload e \<and> snd_boundary e = ESP_OK \<and> snd_header e = ESP_OK
      \<and> snd_payload e = ESP_OK)"

definition delivers_v11 :: "iter_env_v11 \<Rightarrow> bool" where
  "delivers_v11 e =
     ((case cam e of
         None \<Rightarrow> False
       | Some f \<Rightarrow> fb_format f = PIXFORMAT_JPEG \<or> conv_ok (jpg e))
      \<and> snd_boundary e = ESP_OK \<and> snd_header e = ESP_OK \<and> snd_payload e = ESP_OK)"

definition env_good_v11 :: "camera_fb_t \<Rightarrow> iter_env_v11" where
  "env_good_v11 f =
     \<lparr>cam = Some f, jpg = encoded, snd_boundary = ESP_OK, snd_header = ESP_OK,
      snd_payload = ESP_OK, timer_now = 5000000\<rparr>"

definition sends_error :: "bool \<Rightarrow> iter_env \<Rightarrow> esp_err_t" where
  "sends_error pay e =
     (if snd_boundary e \<noteq> ESP_OK then snd_boundary e
      else if snd_header e \<noteq> ESP_OK then snd_header e
      else if pay then snd_payload e
      else ESP_OK)"

definition four_good :: "iter_env list" where
  "four_good =
     [env_good jpeg_frame, env_good raw_frame, env_good jpeg_frame, env_good raw_frame]"

section \<open>The capture request in the words of the specification\<close>







section \<open>The ranges of the Capture Configuration\<close>

definition sizes_ok :: "framesizes \<Rightarrow> bool" where
  "sizes_ok K =
     (0 \<le> FRAMESIZE_SVGA K \<and> FRAMESIZE_SVGA K < FRAMESIZE_INVALID K \<and>
      0 \<le> FRAMESIZE_FHD K \<and> FRAMESIZE_FHD K < FRAMESIZE_INVALID K)"

definition status_in_range :: "framesizes \<Rightarrow> bool \<Rightarrow> sensor_status \<Rightarrow> bool" where
  "status_in_range K ps s =
     (0 \<le> framesize s \<and> framesize s < FRAMESIZE_INVALID K \<and>
      (ps \<or> framesize s \<le> FRAMESIZE_SVGA K) \<and>
      5 \<le> quality s \<and> quality s \<le> 63 \<and>
      0 \<le> vflip s \<and> vflip s \<le> 1 \<and> 0 \<le> hmirror s \<and> hmirror s \<le> 1)"

definition in_range :: "framesizes \<Rightarrow> bool \<Rightarrow> capture_config \<Rightarrow> bool" where
  "in_range K ps c =
     ((case sensor c of None \<Rightarrow> True | Some s \<Rightarrow> status_in_range K ps s) \<and>
      33 \<le> unat (stream_delay_ms c) \<and> unat (stream_delay_ms c) \<le> 500)"

text \<open>A request whose query string was read and holds both \<open>var\<close> and \<open>val\<close>.\<close>

definition well_formed :: "control_req \<Rightarrow> string \<Rightarrow> string \<Rightarrow> bool" where
  "well_formed rq variable val_text =
     (query_len rq \<noteq> 0 \<and> malloc_ok rq \<and> query_str rq = ESP_OK \<and>
      var_key rq = Some variable \<and> val_key rq = Some val_text)"

definition malformed :: "control_req \<Rightarrow> bool" where
  "malformed rq =
     (query_len rq = 0 \<or>
      (malloc_ok rq \<and> (query_str rq \<noteq> ESP_OK \<or> var_key rq = None \<or> val_key rq = None)))"

text \<open>
  What a request asks for, clamped as the specification says: the value, the range of the
  field it names, and the configuration with that field set. A request for
  \<open>stream_delay\<close> involves no driver; any other is accepted when the driver says so.
\<close>

definition requested :: "framesizes \<Rightarrow> control_req \<Rightarrow> string \<Rightarrow> string \<Rightarrow> int" where
  "requested K rq variable val_text =
     (if variable = ''framesize''
      then (if psram rq then framesize_from_value K (Some val_text)
            else min (framesize_from_value K (Some val_text)) (FRAMESIZE_SVGA K))
      else if variable = ''quality'' then max 5 (min 63 (atoi val_text))
      else if variable = ''stream_delay'' then max 33 (min 500 (atoi val_text))
      else max 0 (min 1 (atoi val_text)))"

definition value_in_range :: "framesizes \<Rightarrow> bool \<Rightarrow> string \<Rightarrow> int \<Rightarrow> bool" where
  "value_in_range K ps variable x =
     (if variable = ''framesize''
      then 0 \<le> x \<and> x < FRAMESIZE_INVALID K \<and> (ps \<or> x \<le> FRAMESIZE_SVGA K)
      else if variable = ''quality'' then 5 \<le> x \<and> x \<le> 63
      else if variable = ''stream_delay'' then 33 \<le> x \<and> x \<le> 500
      else 0 \<le> x \<and> x \<le> 1)"

definition set_field :: "string \<Rightarrow> int \<Rightarrow> capture_config \<Rightarrow> capture_config" where
  "set_field variable x c =
     (if variable = ''stream_delay'' then c\<lparr>stream_delay_ms := word_of_int x\<rparr>
      else c\<lparr>sensor :=
               map_option
                 (\<lambda>s. if variable = ''framesize'' then s\<lparr>framesize := x\<rparr>
                      else if variable = ''quality'' then s\<lparr>quality := x\<rparr>
                      else if variable = ''vflip'' then s\<lparr>vflip := x\<rparr>
                      else s\<lparr>hmirror := x\<rparr>)
                 (sensor c)\<rparr>)"

definition accepted :: "control_req \<Rightarrow> string \<Rightarrow> bool" where
  "accepted rq variable = (variable = ''stream_delay'' \<or> drv rq = ESP_OK)"

definition sizes_sample :: framesizes where
  "sizes_sample = \<lparr>FRAMESIZE_SVGA = 11, FRAMESIZE_FHD = 16, FRAMESIZE_INVALID = 25\<rparr>"

definition config_sample :: capture_config where
  "config_sample =
     \<lparr>sensor = Some \<lparr>framesize = 11, quality = 12, vflip = 0, hmirror = 0\<rparr>,
      stream_delay_ms = 33\<rparr>"

definition req_sample :: "string \<Rightarrow> string \<Rightarrow> bool \<Rightarrow> control_req" where
  "req_sample variable val_text ps =
     \<lparr>query_len = length variable + length val_text + 9, malloc_ok = True,
      query_str = ESP_OK, var_key = Some variable, val_key = Some val_text, psram = ps,
      drv = ESP_OK, resp = ESP_OK\<rparr>"

section \<open>Repeated start requests\<close>





section \<open>Failures in a row\<close>

text \<open>
  The number of acquisitions that failed in a row at the end of a script, that is, since
  the last frame the camera gave (or since the script began).
\<close>

definition trailing_failures :: "iter_env list \<Rightarrow> nat" where
  "trailing_failures es = length (takeWhile (\<lambda>e. cam e = None) (rev es))"

definition no_frame_yet :: "iter_env list \<Rightarrow> bool" where
  "no_frame_yet es = list_all (\<lambda>e. cam e = None) es"

section \<open>The listeners a start of version 1.1 adds\<close>








section \<open>Evaluation\<close>

lemmas sample_defs = jpeg_frame_def raw_frame_def encoded_def not_encoded_def env_good_def
  env_no_frame_def env_gone_def env_bad_encode_def send_fine_def late_camera_def
  sample_script_def

lemmas hlen_defs = part_hlen_def fmt_u_def fmt_d_def fmt_06d_def ndigits.simps
  sizeof_part_buf_def

lemmas stream_defs = stream_trace_def stream_handler_def stream_start_def stream_iter_def
  send_frame_def send_boundary_def send_header_def send_payload_def release_buffers_def
  convert_frame_def convert_failed_def stream_cleanup_def delay_ticks_def Let_def

lemmas guard_defs = send_failure_def send_error_def ready_def has_payload_def
  frame_encoded_def acquire_abort_def encode_failure_def next_count_def delivers_def

lemmas v11_defs = stream_iter_v11_def acquire_v11_def send_parts_v11_def release_buffers_v11_def
  pace_v11_def stream_start_v11_def env_good_v11_def delay_ticks_def Let_def

lemmas capture_defs = capture_trace_def capture_handler_def capture_headers_def
  retry_loop.simps MAX_RETRIES_def RETRY_DELAY_MS_def delay_ticks_def

section \<open>Ownership: every frame goes back once, every buffer is freed once\<close>

lemma own_run_append:
  "own_run s (a @ b) = (case own_run s a of None \<Rightarrow> None | Some s1 \<Rightarrow> own_run s1 b)"
  by (induction a arbitrary: s) (auto split: option.splits)

lemma ledger_cong: "fb v1 = fb v \<Longrightarrow> jpg_buf v1 = jpg_buf v \<Longrightarrow> ledger v1 s = ledger v s"
  by (simp add: ledger_def split: option.splits)

lemma send_boundary_own:
  "fb (fst (send_boundary v e)) = fb v"
  "jpg_buf (fst (send_boundary v e)) = jpg_buf v"
  "own_run s (snd (send_boundary v e)) = Some s"
  by (cases s; simp add: send_boundary_def)+

lemma send_header_own:
  "fb (fst (send_header v e)) = fb v"
  "jpg_buf (fst (send_header v e)) = jpg_buf v"
  "own_run s (snd (send_header v e)) = Some s"
  by (cases s; simp add: send_header_def Let_def)+

lemma send_payload_own:
  "fb (fst (send_payload v e)) = fb v"
  "jpg_buf (fst (send_payload v e)) = jpg_buf v"
  "own_run s (snd (send_payload v e)) = Some s"
  by (cases s; simp add: send_payload_def)+

lemma release_buffers_own:
  "idle (fst (release_buffers v))"
  "own_run (ledger v s) (snd (release_buffers v)) = Some s"
  by (cases s; auto simp: release_buffers_def idle_def ledger_def split: option.splits)+

lemma delay_own: "own_run s [delay_ticks tick n] = Some s"
  by (cases s) (simp add: delay_ticks_def)

lemma send_frame_own:
  "idle (fst (snd (send_frame tick d v e)))"
  "own_run (ledger v s) (snd (snd (send_frame tick d v e))) = Some s"
proof -
  let ?v1 = "fst (send_boundary v e)" and ?t1 = "snd (send_boundary v e)"
  let ?v2 = "fst (send_header ?v1 e)" and ?t2 = "snd (send_header ?v1 e)"
  let ?v3 = "fst (send_payload ?v2 e)" and ?t3 = "snd (send_payload ?v2 e)"
  let ?v4 = "fst (release_buffers ?v3)" and ?t4 = "snd (release_buffers ?v3)"
  have l: "ledger ?v3 s = ledger v s"
    by (rule ledger_cong) (simp_all add: send_boundary_own send_header_own send_payload_own)
  have o: "own_run (ledger v s) (?t1 @ ?t2 @ ?t3 @ ?t4) = Some s"
    using release_buffers_own(2)[of ?v3 s] l
    by (simp add: own_run_append send_boundary_own send_header_own send_payload_own)
  have v: "fst (snd (send_frame tick d v e)) = ?v4"
    by (simp add: send_frame_def split: prod.splits)
  have t: "snd (snd (send_frame tick d v e)) = ?t1 @ ?t2 @ ?t3 @ ?t4 \<or>
           snd (snd (send_frame tick d v e)) =
             (?t1 @ ?t2 @ ?t3 @ ?t4) @ [delay_ticks tick (unat d)]"
    by (simp add: send_frame_def split: prod.splits)
  show "idle (fst (snd (send_frame tick d v e)))"
    using v release_buffers_own(1) by simp
  show "own_run (ledger v s) (snd (snd (send_frame tick d v e))) = Some s"
    using t o delay_own[of s] by (auto simp: own_run_append simp del: append_assoc)
qed

lemma convert_frame_own:
  "fb (fst (convert_frame v f j)) = None"
  "own_run (f # fs, bs) (snd (convert_frame v f j)) =
     Some (case out_set j of
             Some (p, l) \<Rightarrow> if p \<noteq> 0 then (fs, p # bs) else (fs, bs)
           | None \<Rightarrow> (fs, bs))"
  "jpg_buf (fst (convert_frame v f j)) =
     (case out_set j of Some (p, l) \<Rightarrow> p | None \<Rightarrow> jpg_buf v)"
  by (auto simp: convert_frame_def Let_def split: option.splits)

lemma stream_iter_own:
  assumes "idle v"
  shows "idle (fst (snd (stream_iter tick d v e))) \<and>
         own_run s (snd (snd (stream_iter tick d v e))) = Some s"
proof (cases "cam e")
  case None
  then show ?thesis using assms delay_own[of s tick 50]
    by (cases s) (auto simp: stream_iter_def Let_def idle_def)
next
  case (Some f)
  obtain fs bs where s: "s = (fs, bs)" by (cases s)
  show ?thesis
  proof (cases "fb_format f = PIXFORMAT_JPEG")
    case True
    let ?v = "v\<lparr>fb := Some f, error_count := 0, ts_sec := fb_tv_sec f,
                ts_usec := fb_tv_usec f, jpg_buf_len := fb_len f, jpg_buf := fb_buf f\<rparr>"
    have "ledger ?v s = (f # fs, bs)" by (simp add: ledger_def s)
    then show ?thesis
      using send_frame_own(1)[of tick d ?v e] send_frame_own(2)[of ?v s tick d e] Some True
      by (auto simp: stream_iter_def Let_def s case_prod_unfold)
  next
    case False
    let ?v1 = "v\<lparr>fb := Some f, error_count := 0, ts_sec := fb_tv_sec f,
                 ts_usec := fb_tv_usec f\<rparr>"
    let ?v2 = "fst (convert_frame ?v1 f (jpg e))"
    have l: "own_run (f # fs, bs) (snd (convert_frame ?v1 f (jpg e))) = Some (ledger ?v2 s)"
      using assms
      by (auto simp: convert_frame_own ledger_def s idle_def split: option.splits)
    show ?thesis
    proof (cases "convert_failed ?v2 (jpg e)")
      case True
      then show ?thesis using Some False l
        by (auto simp: stream_iter_def Let_def s idle_def own_run_append ledger_def
            convert_frame_own(1) case_prod_unfold)
    next
      case nf: False
      then show ?thesis
        using Some False l send_frame_own(1)[of tick d ?v2 e]
          send_frame_own(2)[of ?v2 s tick d e]
        by (auto simp: stream_iter_def Let_def s own_run_append case_prod_unfold)
    qed
  qed
qed

lemma stream_loop_own:
  "idle v \<Longrightarrow> idle (fst (snd (stream_loop tick d v es))) \<and>
     own_run s (snd (snd (stream_loop tick d v es))) = Some s"
proof (induction es arbitrary: v)
  case Nil
  then show ?case by simp
next
  case (Cons e es)
  obtain fl v1 t1 where it: "stream_iter tick d v e = (fl, v1, t1)"
    by (cases "stream_iter tick d v e")
  have i1: "idle v1" and o1: "own_run s t1 = Some s"
    using stream_iter_own[OF Cons.prems, of tick d e s] it by simp_all
  show ?case
  proof (cases fl)
    case Break
    then show ?thesis using it i1 o1 by simp
  next
    case Continue
    then show ?thesis using it Cons.IH[OF i1] o1
      by (auto simp: own_run_append split: prod.splits)
  qed
qed

lemma stream_cleanup_idle: "idle v \<Longrightarrow> stream_cleanup v = (v, [])"
  by (simp add: stream_cleanup_def idle_def)

lemma stream_handler_balanced: "balanced (stream_trace tick d ec st envs)"
proof -
  have i: "idle (stream_start ec)" by (simp add: idle_def stream_start_def)
  obtain b v t where l: "stream_loop tick d (stream_start ec) envs = (b, v, t)"
    by (cases "stream_loop tick d (stream_start ec) envs")
  have "idle v" and "own_run ([], []) t = Some ([], [])"
    using stream_loop_own[OF i, of tick d envs "([], [])"] l by simp_all
  then show ?thesis using l
    by (cases b)
      (simp_all add: stream_trace_def stream_handler_def balanced_def stream_cleanup_idle
        own_run_append)
qed

lemma retry_loop_own:
  "own_run (fs, bs) (snd (retry_loop tick shots r)) =
     Some (case fst (retry_loop tick shots r) of Some f \<Rightarrow> (f # fs, bs) | None \<Rightarrow> (fs, bs))"
proof (induction tick shots r rule: retry_loop.induct)
  case (1 tick shots retry)
  show ?case
  proof (cases "retry < MAX_RETRIES")
    case False
    then show ?thesis by (simp add: retry_loop.simps[of tick shots retry])
  next
    case True
    show ?thesis
    proof (cases "shots retry")
      case None
      then show ?thesis using True 1[OF True None]
        by (auto simp: retry_loop.simps[of tick shots retry] delay_ticks_def
            split: prod.splits)
    next
      case (Some f)
      then show ?thesis using True by (simp add: retry_loop.simps[of tick shots retry])
    qed
  qed
qed

lemma capture_handler_balanced: "balanced (capture_trace tick shots s)"
  using retry_loop_own[of "[]" "[]" tick shots 0]
  by (auto simp: capture_trace_def capture_handler_def balanced_def own_run_append
      capture_headers_def split: prod.splits option.splits)

lemma own_run_counts:
  "own_run (fs, bs) t = Some (fs1, bs1) \<Longrightarrow>
     length fs + count is_acquired t = length fs1 + count is_returned t \<and>
     length bs + count is_handed_over t = length bs1 + count is_freed t"
proof (induction t arbitrary: fs bs)
  case Nil
  then show ?case by (simp add: count_def)
next
  case (Cons x t)
  obtain fs2 bs2 where st: "own_step (fs, bs) x = Some (fs2, bs2)"
    and run: "own_run (fs2, bs2) t = Some (fs1, bs1)"
    using Cons.prems by (auto split: option.splits)
  have step: "length fs + (if is_acquired x then 1 else 0)
                = length fs2 + (if is_returned x then 1 else 0) \<and>
              length bs + (if is_handed_over x then 1 else 0)
                = length bs2 + (if is_freed x then 1 else 0)"
  proof (cases x)
    case (Fb_get o1)
    then show ?thesis using st by (cases o1) auto
  next
    case (Fb_return f)
    then show ?thesis using st
      by (auto simp: length_remove1 split: if_splits) (cases fs; simp)
  next
    case (Frame2jpg f j)
    then show ?thesis using st by (auto split: option.splits if_splits)
  next
    case (Free p)
    then show ?thesis using st
      by (auto simp: length_remove1 split: if_splits) (cases bs; simp)
  qed (use st in auto)
  show ?case using Cons.IH[OF run] step by (auto simp: count_def)
qed

lemma balanced_counts:
  "balanced t \<Longrightarrow>
     count is_returned t = count is_acquired t \<and> count is_freed t = count is_handed_over t"
  using own_run_counts[of "[]" "[]" t "[]" "[]"] by (simp add: balanced_def)

text \<open>
  C1. In every execution of the capture handler, and in every execution of the stream
  handler (whether it has returned or is still in its loop when the script ends), the
  ledger of held frames and encoder buffers is respected by every event and is empty at
  the end: a frame is given back only while it is held, an address is freed only while it
  is a buffer handed over by the encoder, and nothing is left. Hence there are as many
  give-backs as acquired frames and as many calls of \<open>free\<close> as buffers handed over.
\<close>

theorem frames_and_buffers_released_once:
  "balanced (stream_trace tick d ec st envs) \<and>
   count is_returned (stream_trace tick d ec st envs)
     = count is_acquired (stream_trace tick d ec st envs) \<and>
   count is_freed (stream_trace tick d ec st envs)
     = count is_handed_over (stream_trace tick d ec st envs) \<and>
   balanced (capture_trace tick shots s) \<and>
   count is_returned (capture_trace tick shots s)
     = count is_acquired (capture_trace tick shots s) \<and>
   count is_freed (capture_trace tick shots s) = 0"
proof -
  have "count is_handed_over (capture_trace tick shots s) = 0"
  proof -
    have "\<forall>x \<in> set (snd (retry_loop tick shots r)). \<not> is_handed_over x" for r
    proof (induction tick shots r rule: retry_loop.induct)
      case (1 tick shots retry)
      show ?case
      proof (cases "retry < MAX_RETRIES")
        case False
        then show ?thesis by (simp add: retry_loop.simps[of tick shots retry])
      next
        case True
        show ?thesis
        proof (cases "shots retry")
          case None
          then show ?thesis using True 1[OF True None]
            by (auto simp: retry_loop.simps[of tick shots retry] delay_ticks_def
                split: prod.splits)
        next
          case (Some f)
          then show ?thesis using True by (simp add: retry_loop.simps[of tick shots retry])
        qed
      qed
    qed
    then have "filter is_handed_over (snd (retry_loop tick shots 0)) = []"
      by (simp add: filter_empty_conv)
    then show ?thesis
      by (auto simp: count_def capture_trace_def capture_handler_def capture_headers_def
          split: prod.splits option.splits)
  qed
  then show ?thesis
    using stream_handler_balanced[of tick d ec st envs]
      capture_handler_balanced[of tick shots s]
      balanced_counts[of "stream_trace tick d ec st envs"]
      balanced_counts[of "capture_trace tick shots s"]
    by simp
qed

theorem frames_and_buffers_released_once_witness:
  "balanced (stream_trace 1 33 0 ESP_OK sample_script) \<and>
   count is_returned (stream_trace 1 33 0 ESP_OK sample_script) = 3 \<and>
   count is_freed (stream_trace 1 33 0 ESP_OK sample_script) = 2 \<and>
   balanced (capture_trace 1 (late_camera 2 raw_frame) send_fine) \<and>
   count is_returned (capture_trace 1 (late_camera 2 raw_frame) send_fine) = 1"
proof -
  have a: "count is_acquired (stream_trace 1 33 0 ESP_OK sample_script) = 3"
    by (simp add: sample_defs stream_defs hlen_defs count_def)
  have b: "count is_handed_over (stream_trace 1 33 0 ESP_OK sample_script) = 2"
    by (simp add: sample_defs stream_defs hlen_defs count_def)
  have c: "count is_acquired (capture_trace 1 (late_camera 2 raw_frame) send_fine) = 1"
    by (simp add: sample_defs capture_defs count_def)
  show ?thesis
    using frames_and_buffers_released_once
      [where tick = 1 and d = 33 and ec = 0 and st = ESP_OK and envs = sample_script
         and shots = "late_camera 2 raw_frame" and s = send_fine]
      a b c
    by simp
qed


section \<open>The part header always fits\<close>

lemma ndigits_le: "0 < k \<Longrightarrow> n < 10 ^ k \<Longrightarrow> ndigits n \<le> k"
proof (induction k arbitrary: n)
  case 0
  then show ?case by simp
next
  case (Suc k)
  show ?case
  proof (cases "n < 10")
    case True
    then show ?thesis by (simp add: ndigits.simps[of n])
  next
    case False
    then have k: "0 < k" using Suc.prems by (cases k) auto
    have "n div 10 < 10 ^ k" using Suc.prems by (simp add: less_mult_imp_div_less mult.commute)
    then have "ndigits (n div 10) \<le> k" using Suc.IH[OF k] by simp
    then show ?thesis using False by (simp add: ndigits.simps[of n])
  qed
qed

lemma fmt_u_le: "fmt_u w \<le> 10"
proof -
  have "unat w < 2 ^ 32" using unsigned_less[of w] by simp
  then have "unat w < 10 ^ 10" by simp
  then show ?thesis unfolding fmt_u_def by (intro ndigits_le) simp_all
qed

lemma fmt_d_le: "fmt_d w \<le> 11"
proof -
  have lo: "- (2 ^ 31) \<le> sint w" using sint_ge[of w] by simp
  have hi: "sint w < 2 ^ 31" using sint_lt[of w] by simp
  have a: "nat (- sint w) < 10 ^ 10" using lo by simp
  have b: "nat (sint w) < 10 ^ 10" using hi by simp
  have "ndigits (nat (- sint w)) \<le> 10" by (rule ndigits_le) (use a in simp_all)
  moreover have "ndigits (nat (sint w)) \<le> 10" by (rule ndigits_le) (use b in simp_all)
  ultimately show ?thesis by (simp add: fmt_d_def)
qed

lemma part_hlen_small: "part_hlen l s u < sizeof_part_buf"
  using fmt_u_le[of l] fmt_d_le[of s] fmt_d_le[of u]
  by (simp add: part_hlen_def fmt_06d_def sizeof_part_buf_def)

section \<open>The passes of the stream loop\<close>



lemma send_error_sends: "send_error e = sends_error (has_payload e) e"
  by (simp add: send_error_def sends_error_def)

lemma count_simps:
  "count P [] = 0"
  "count P (x # xs) = (if P x then Suc (count P xs) else count P xs)"
  "count P (xs @ ys) = count P xs + count P ys"
  by (simp_all add: count_def)

lemma is_delivered_iff [simp]: "is_delivered (Send_chunk (Payload p l) r) = (r = ESP_OK)"
  by (cases r) simp_all

lemma send_frame_facts:
  assumes "res v = ESP_OK"
  shows "fst (send_frame tick d v e) =
           (if sends_error (jpg_buf v \<noteq> 0 \<and> jpg_buf_len v \<noteq> 0) e = ESP_OK then Continue else Break)"
    and "res (fst (snd (send_frame tick d v e))) = sends_error (jpg_buf v \<noteq> 0 \<and> jpg_buf_len v \<noteq> 0) e"
    and "error_count (fst (snd (send_frame tick d v e))) = error_count v"
    and "count is_boundary (snd (snd (send_frame tick d v e))) = 1"
    and "count is_ready (snd (snd (send_frame tick d v e))) = 0"
    and "count is_delivered (snd (snd (send_frame tick d v e))) =
           (if jpg_buf v \<noteq> 0 \<and> jpg_buf_len v \<noteq> 0 \<and> snd_boundary e = ESP_OK \<and> snd_header e = ESP_OK
               \<and> snd_payload e = ESP_OK then 1 else 0)"
    and "count is_delay (snd (snd (send_frame tick d v e))) =
           (if sends_error (jpg_buf v \<noteq> 0 \<and> jpg_buf_len v \<noteq> 0) e = ESP_OK then 1 else 0)"
    and "sends_error (jpg_buf v \<noteq> 0 \<and> jpg_buf_len v \<noteq> 0) e = ESP_OK \<Longrightarrow>
           last (snd (snd (send_frame tick d v e))) = delay_ticks tick (unat d)"
  using assms part_hlen_small[of "jpg_buf_len v" "ts_sec v" "ts_usec v"]
  by (auto simp: send_frame_def send_boundary_def send_header_def send_payload_def
      release_buffers_def sends_error_def Let_def count_simps delay_ticks_def word_greater_zero_iff
      split: option.splits if_splits)


lemma convert_frame_facts:
  "res (fst (convert_frame v f j)) = res v"
  "error_count (fst (convert_frame v f j)) = error_count v"
  "jpg_buf (fst (convert_frame v f j)) = (case out_set j of Some (p, l) \<Rightarrow> p | None \<Rightarrow> jpg_buf v)"
  "jpg_buf_len (fst (convert_frame v f j)) = (case out_set j of Some (p, l) \<Rightarrow> l | None \<Rightarrow> jpg_buf_len v)"
  "snd (convert_frame v f j) = [Frame2jpg f j, Fb_return f]"
  by (auto simp: convert_frame_def Let_def split: option.splits)

lemma convert_failed_iff:
  "jpg_buf v = 0 \<Longrightarrow> convert_failed (fst (convert_frame v f j)) j = (\<not> frame_encoded j)"
  by (auto simp: convert_failed_def frame_encoded_def convert_frame_facts split: option.splits)

lemma stream_iter_all:
  assumes "running v"
  shows "(fst (stream_iter tick d v e) =
           (if send_failure e \<or> acquire_abort (error_count v) e \<or> encode_failure e
            then Break else Continue)) \<and>
     (res (fst (snd (stream_iter tick d v e))) =
           (if send_failure e then send_error e
            else if acquire_abort (error_count v) e \<or> encode_failure e then ESP_FAIL
            else ESP_OK)) \<and>
     (error_count (fst (snd (stream_iter tick d v e))) = next_count (error_count v) e) \<and>
     (count is_boundary (snd (snd (stream_iter tick d v e)))
           = count is_ready (snd (snd (stream_iter tick d v e)))) \<and>
     (count is_delivered (snd (snd (stream_iter tick d v e))) = (if delivers e then 1 else 0)) \<and>
     (ready e \<longrightarrow> send_error e = ESP_OK \<longrightarrow>
           last (snd (snd (stream_iter tick d v e))) = delay_ticks tick (unat d) \<and>
           count is_delay (snd (snd (stream_iter tick d v e))) = 1)"
proof -
  have r: "res v = ESP_OK" and i: "jpg_buf v = 0"
    using assms by (simp_all add: running_def idle_def)
  show ?thesis
  proof (cases "cam e")
    case None
    then show ?thesis
      using r
      by (simp add: stream_iter_def Let_def send_failure_def ready_def acquire_abort_def
          encode_failure_def next_count_def count_simps delay_ticks_def delivers_def)
  next
    case (Some f)
    show ?thesis
    proof (cases "fb_format f = PIXFORMAT_JPEG")
      case True
      let ?v = "v\<lparr>fb := Some f, error_count := 0, ts_sec := fb_tv_sec f,
                  ts_usec := fb_tv_usec f, jpg_buf_len := fb_len f, jpg_buf := fb_buf f\<rparr>"
      have rv: "res ?v = ESP_OK" using r by simp
      have se: "sends_error (jpg_buf ?v \<noteq> 0 \<and> jpg_buf_len ?v \<noteq> 0) e = send_error e"
        using Some True by (simp add: send_error_sends has_payload_def)
      show ?thesis
        using Some True send_frame_facts[OF rv, where tick = tick and d = d and e = e] se
        by (auto simp: stream_iter_def Let_def case_prod_unfold send_failure_def ready_def
            acquire_abort_def encode_failure_def next_count_def count_simps delivers_def
            has_payload_def send_error_def split: if_splits)
    next
      case False
      let ?v1 = "v\<lparr>fb := Some f, error_count := 0, ts_sec := fb_tv_sec f,
                   ts_usec := fb_tv_usec f\<rparr>"
      let ?v2 = "fst (convert_frame ?v1 f (jpg e))"
      have rv: "res ?v2 = ESP_OK" using r by (simp add: convert_frame_facts)
      have cf: "convert_failed ?v2 (jpg e) = (\<not> frame_encoded (jpg e))"
        using i by (simp add: convert_failed_iff)
      show ?thesis
      proof (cases "frame_encoded (jpg e)")
        case enc: True
        have nz: "jpg_buf ?v2 \<noteq> 0 \<and> jpg_buf_len ?v2 \<noteq> 0"
          using enc by (auto simp: frame_encoded_def convert_frame_facts split: option.splits)
        have se: "sends_error (jpg_buf ?v2 \<noteq> 0 \<and> jpg_buf_len ?v2 \<noteq> 0) e = send_error e"
          using Some False nz by (simp add: send_error_sends has_payload_def)
        show ?thesis
          using Some False enc cf send_frame_facts[OF rv, where tick = tick and d = d and e = e] se nz
          by (auto simp: stream_iter_def Let_def case_prod_unfold send_failure_def ready_def
              acquire_abort_def encode_failure_def next_count_def count_simps delivers_def
              has_payload_def send_error_def convert_frame_facts split: if_splits)
      next
        case nenc: False
        show ?thesis
          using Some False nenc cf
          by (auto simp: stream_iter_def Let_def case_prod_unfold send_failure_def ready_def
              acquire_abort_def encode_failure_def next_count_def count_simps delivers_def
              convert_frame_facts)
      qed
    qed
  qed
qed


lemma stream_iter_running:
  assumes "running v" and "fst (stream_iter tick d v e) = Continue"
  shows "running (fst (snd (stream_iter tick d v e)))"
proof -
  have "idle (fst (snd (stream_iter tick d v e)))"
    using stream_iter_own[of v tick d e "([], [])"] assms(1) by (simp add: running_def)
  moreover have "res (fst (snd (stream_iter tick d v e))) = ESP_OK"
    using stream_iter_all[OF assms(1), of tick d e] assms(2) by (auto split: if_splits)
  ultimately show ?thesis by (simp add: running_def)
qed

lemma stream_iter_trace_nonempty: "snd (snd (stream_iter tick d v e)) \<noteq> []"
  by (auto simp: stream_iter_def Let_def case_prod_unfold split: option.splits)

lemma send_frame_no_get: "Fb_get x \<notin> set (snd (snd (send_frame tick d v e)))"
  by (simp add: send_frame_def send_boundary_def send_header_def send_payload_def
      release_buffers_def delay_ticks_def Let_def case_prod_unfold split: option.splits)

lemma stream_iter_no_failed_get:
  assumes "cam e = Some f"
  shows "Fb_get None \<notin> set (snd (snd (stream_iter tick d v e)))"
  using assms send_frame_no_get[of None tick d _ e]
  by (simp add: stream_iter_def Let_def case_prod_unfold convert_frame_def)

lemma stream_iter_last:
  assumes "cam e = Some f"
  shows "last (snd (snd (stream_iter tick d v e))) \<noteq> Fb_get None"
  using stream_iter_no_failed_get[OF assms, of tick d v]
    last_in_set[OF stream_iter_trace_nonempty[of tick d v e]]
  by auto

lemma stream_iter_closed_count:
  assumes "running v" and "fst (stream_iter tick d v e) = Break"
  shows "(error_count (fst (snd (stream_iter tick d v e))) = 0 \<or>
          10 < error_count (fst (snd (stream_iter tick d v e)))) \<and>
         (10 < error_count (fst (snd (stream_iter tick d v e))) \<longleftrightarrow>
          last (snd (snd (stream_iter tick d v e))) = Fb_get None)"
proof (cases "cam e")
  case None
  then show ?thesis using assms(2)
    by (auto simp: stream_iter_def Let_def split: if_splits)
next
  case (Some f)
  have "error_count (fst (snd (stream_iter tick d v e))) = 0"
    using stream_iter_all[OF assms(1), of tick d e] Some by (simp add: next_count_def)
  then show ?thesis
    using stream_iter_last[OF Some, of tick d v] by simp
qed

lemma stream_iter_break:
  assumes "running v" and "fst (stream_iter tick d v e) = Break"
  shows "session_end (error_count v) (e # es) = Returned (res (fst (snd (stream_iter tick d v e))))"
    and "res (fst (snd (stream_iter tick d v e))) \<noteq> ESP_OK"
  using stream_iter_all[OF assms(1), of tick d e] assms(2)
  by (auto simp: send_failure_def split: if_splits)

lemma stream_iter_continue:
  assumes "running v" and "fst (stream_iter tick d v e) = Continue"
  shows "session_end (error_count v) (e # es)
           = session_end (error_count (fst (snd (stream_iter tick d v e)))) es"
  using stream_iter_all[OF assms(1), of tick d e] assms(2)
  by (auto split: if_splits)

lemma stream_loop_unfold:
  "stream_loop tick d v (e # es) =
     (if fst (stream_iter tick d v e) = Break
      then (True, fst (snd (stream_iter tick d v e)), snd (snd (stream_iter tick d v e)))
      else (fst (stream_loop tick d (fst (snd (stream_iter tick d v e))) es),
            fst (snd (stream_loop tick d (fst (snd (stream_iter tick d v e))) es)),
            snd (snd (stream_iter tick d v e)) @
            snd (snd (stream_loop tick d (fst (snd (stream_iter tick d v e))) es))))"
  by (auto simp: case_prod_unfold split: flow.splits)

lemma stream_loop_closed_nonempty:
  assumes "fst (stream_loop tick d v es)"
  shows "snd (snd (stream_loop tick d v es)) \<noteq> []"
proof (cases es)
  case Nil
  then show ?thesis using assms by simp
next
  case (Cons e es1)
  then show ?thesis using assms stream_iter_trace_nonempty[of tick d v e]
    by (simp add: stream_loop_unfold del: stream_loop.simps split: if_splits)
qed

lemma stream_loop_all:
  assumes "running v"
  shows "(if fst (stream_loop tick d v es) then Returned (res (fst (snd (stream_loop tick d v es))))
          else Serving) = session_end (error_count v) es \<and>
         (fst (stream_loop tick d v es) \<longrightarrow>
            res (fst (snd (stream_loop tick d v es))) \<noteq> ESP_OK \<and>
            (error_count (fst (snd (stream_loop tick d v es))) = 0 \<or>
             10 < error_count (fst (snd (stream_loop tick d v es)))) \<and>
            (10 < error_count (fst (snd (stream_loop tick d v es))) \<longleftrightarrow>
             last (snd (snd (stream_loop tick d v es))) = Fb_get None)) \<and>
         (\<not> fst (stream_loop tick d v es) \<longrightarrow> running (fst (snd (stream_loop tick d v es)))) \<and>
         count is_boundary (snd (snd (stream_loop tick d v es)))
           = count is_ready (snd (snd (stream_loop tick d v es)))"
  using assms
proof (induction es arbitrary: v)
  case Nil
  then show ?case by (simp add: count_simps)
next
  case (Cons e es)
  let ?v1 = "fst (snd (stream_iter tick d v e))"
  have cnt: "count is_boundary (snd (snd (stream_iter tick d v e)))
               = count is_ready (snd (snd (stream_iter tick d v e)))"
    using stream_iter_all[OF Cons.prems, of tick d e] by simp
  show ?case
  proof (cases "fst (stream_iter tick d v e)")
    case Break
    then show ?thesis
      using stream_iter_break(1)[OF Cons.prems Break, of es]
        stream_iter_break(2)[OF Cons.prems Break]
        stream_iter_closed_count[OF Cons.prems Break] cnt
      by (auto simp add: stream_loop_unfold simp del: stream_loop.simps session_end.simps)
  next
    case Continue
    have r1: "running ?v1" using stream_iter_running[OF Cons.prems Continue] .
    have u: "stream_loop tick d v (e # es) =
               (fst (stream_loop tick d ?v1 es), fst (snd (stream_loop tick d ?v1 es)),
                snd (snd (stream_iter tick d v e)) @ snd (snd (stream_loop tick d ?v1 es)))"
      using Continue by (simp add: stream_loop_unfold del: stream_loop.simps)
    have l: "last (snd (snd (stream_iter tick d v e)) @ snd (snd (stream_loop tick d ?v1 es)))
               = last (snd (snd (stream_loop tick d ?v1 es)))"
      if "fst (stream_loop tick d ?v1 es)"
      using stream_loop_closed_nonempty[OF that] by simp
    show ?thesis
      unfolding u stream_iter_continue[OF Cons.prems Continue, of es]
      using Cons.IH[OF r1] cnt l
      by (auto simp: count_simps simp del: stream_loop.simps session_end.simps)
  qed
qed


lemma running_start: "running (stream_start ec)"
  by (simp add: running_def idle_def stream_start_def)

lemma error_count_start: "error_count (stream_start ec) = ec"
  by (simp add: stream_start_def)

lemma stream_loop_idle: "running v \<Longrightarrow> idle (fst (snd (stream_loop tick d v es)))"
  using stream_loop_own[of v tick d es "([], [])"] by (simp add: running_def)

lemma stream_loop_reach:
  assumes "stream_loop tick d (stream_start ec) es = (False, v, t)"
  shows "running v"
  using stream_loop_all[OF running_start, of tick d ec es] assms by simp

lemma stream_handler_unfold:
  "stream_handler tick d ec ESP_OK es =
     ((if fst (stream_loop tick d (stream_start ec) es)
       then Returned (res (fst (snd (stream_loop tick d (stream_start ec) es))))
       else Serving),
      error_count (fst (snd (stream_loop tick d (stream_start ec) es))),
      [Resp_set_type stream_type,
       Resp_set_hdr ''Access-Control-Allow-Origin'' ''*'',
       Resp_set_hdr ''Cache-Control'' ''no-store, no-cache, must-revalidate'']
      @ snd (snd (stream_loop tick d (stream_start ec) es)))"
  using stream_cleanup_idle[OF stream_loop_idle[OF running_start, of tick d ec es]]
  by (auto simp: stream_handler_def Let_def case_prod_unfold split: bool.splits)

lemma stream_handler_end: "fst (stream_handler tick d ec ESP_OK es) = session_end ec es"
  using stream_loop_all[OF running_start, of tick d ec es]
  by (simp add: stream_handler_unfold error_count_start)

lemma stream_handler_not_ok: "fst (stream_handler tick d ec ESP_OK es) \<noteq> Returned ESP_OK"
proof (cases "fst (stream_loop tick d (stream_start ec) es)")
  case True
  then have "res (fst (snd (stream_loop tick d (stream_start ec) es))) \<noteq> ESP_OK"
    using stream_loop_all[OF running_start, of tick d ec es] by blast
  then show ?thesis using True by (simp add: stream_handler_unfold)
next
  case False
  then show ?thesis by (simp add: stream_handler_unfold)
qed

lemma stream_trace_boundaries:
  "count is_boundary (stream_trace tick d ec st es) = count is_ready (stream_trace tick d ec st es)"
proof (cases "st = ESP_OK")
  case True
  then show ?thesis
    using stream_loop_all[OF running_start, of tick d ec es]
    by (simp add: stream_trace_def stream_handler_unfold count_simps)
next
  case False
  then show ?thesis by (simp add: stream_trace_def stream_handler_def count_simps)
qed

lemma stream_loop_append:
  "stream_loop tick d v (a @ b) =
     (if fst (stream_loop tick d v a) then stream_loop tick d v a
      else (fst (stream_loop tick d (fst (snd (stream_loop tick d v a))) b),
            fst (snd (stream_loop tick d (fst (snd (stream_loop tick d v a))) b)),
            snd (snd (stream_loop tick d v a)) @
            snd (snd (stream_loop tick d (fst (snd (stream_loop tick d v a))) b))))"
proof (induction a arbitrary: v)
  case Nil
  then show ?case by simp
next
  case (Cons e a)
  show ?case
    by (simp add: stream_loop_unfold Cons.IH del: stream_loop.simps)
qed

lemma delivers_ready: "delivers e \<Longrightarrow> ready e \<and> send_error e = ESP_OK \<and> \<not> send_failure e
    \<and> \<not> encode_failure e \<and> \<not> acquire_abort c e"
  by (auto simp: delivers_def send_error_def send_failure_def encode_failure_def ready_def
      acquire_abort_def split: option.splits)

lemma stream_loop_delivers:
  assumes "running v" and "\<forall>e \<in> set good. delivers e"
  shows "\<not> fst (stream_loop tick d v good) \<and>
         running (fst (snd (stream_loop tick d v good))) \<and>
         count is_delivered (snd (snd (stream_loop tick d v good))) = length good"
  using assms
proof (induction good arbitrary: v)
  case Nil
  then show ?case by (simp add: count_simps)
next
  case (Cons e good)
  have de: "delivers e" using Cons.prems(2) by simp
  have c: "fst (stream_iter tick d v e) = Continue"
    using stream_iter_all[OF Cons.prems(1), of tick d e] delivers_ready[OF de, of "error_count v"]
    by simp
  have n: "count is_delivered (snd (snd (stream_iter tick d v e))) = 1"
    using stream_iter_all[OF Cons.prems(1), of tick d e] de by simp
  have r1: "running (fst (snd (stream_iter tick d v e)))"
    using stream_iter_running[OF Cons.prems(1) c] .
  show ?case
    using Cons.IH[OF r1] Cons.prems(2) c n
    by (simp add: stream_loop_unfold count_simps del: stream_loop.simps)
qed

lemma stream_handler_sink_fails:
  assumes "\<forall>e \<in> set good. delivers e" and "send_failure bad"
  shows "fst (stream_handler tick d ec ESP_OK (good @ bad # rest)) = Returned (send_error bad)"
    and "count is_delivered (stream_trace tick d ec ESP_OK (good @ bad # rest)) = length good"
proof -
  let ?l = "stream_loop tick d (stream_start ec) good"
  let ?v1 = "fst (snd ?l)"
  have g: "\<not> fst ?l" "running ?v1" "count is_delivered (snd (snd ?l)) = length good"
    using stream_loop_delivers[OF running_start assms(1), of tick d ec] by simp_all
  note it = stream_iter_all[OF g(2), of tick d bad]
  have nd: "\<not> delivers bad" using assms(2)
    by (auto simp: delivers_def send_failure_def send_error_def)
  have b: "fst (stream_iter tick d ?v1 bad) = Break" using it assms(2) by simp
  have r: "res (fst (snd (stream_iter tick d ?v1 bad))) = send_error bad" using it assms(2) by simp
  have n: "count is_delivered (snd (snd (stream_iter tick d ?v1 bad))) = 0" using it nd by simp
  have l: "stream_loop tick d (stream_start ec) (good @ bad # rest) =
             (True, fst (snd (stream_iter tick d ?v1 bad)),
              snd (snd ?l) @ snd (snd (stream_iter tick d ?v1 bad)))"
    using g(1) b by (simp add: stream_loop_append stream_loop_unfold del: stream_loop.simps)
  show "fst (stream_handler tick d ec ESP_OK (good @ bad # rest)) = Returned (send_error bad)"
    using l r by (simp add: stream_handler_unfold)
  show "count is_delivered (stream_trace tick d ec ESP_OK (good @ bad # rest)) = length good"
    using l g(3) n by (simp add: stream_trace_def stream_handler_unfold count_simps)
qed

lemma is_boundary_sent_iff [simp]:
  "is_boundary_sent (Send_chunk c r) = (c = Boundary \<and> r = ESP_OK)"
  by (cases c; cases r) simp_all

lemma send_frame_boundary_sent:
  assumes "res v = ESP_OK"
  shows "count is_boundary_sent (snd (snd (send_frame tick d v e)))
           = (if snd_boundary e = ESP_OK then 1 else 0)"
    and "snd_boundary e \<noteq> ESP_OK \<Longrightarrow> fst (send_frame tick d v e) = Break"
  using assms part_hlen_small[of "jpg_buf_len v" "ts_sec v" "ts_usec v"]
  by (auto simp: send_frame_def send_boundary_def send_header_def send_payload_def
      release_buffers_def Let_def count_simps delay_ticks_def
      split: option.splits if_splits)

lemma stream_iter_boundary_sent:
  assumes "running v"
  shows "count is_boundary_sent (snd (snd (stream_iter tick d v e)))
           = (if ready e \<and> snd_boundary e = ESP_OK then 1 else 0) \<and>
         (ready e \<and> snd_boundary e \<noteq> ESP_OK \<longrightarrow> fst (stream_iter tick d v e) = Break) \<and>
         count is_ready (snd (snd (stream_iter tick d v e))) = (if ready e then 1 else 0)"
proof -
  have r: "res v = ESP_OK" and i: "jpg_buf v = 0"
    using assms by (simp_all add: running_def idle_def)
  show ?thesis
  proof (cases "cam e")
    case None
    then show ?thesis
      by (simp add: stream_iter_def Let_def ready_def count_simps delay_ticks_def)
  next
    case (Some f)
    show ?thesis
    proof (cases "fb_format f = PIXFORMAT_JPEG")
      case True
      let ?v = "v\<lparr>fb := Some f, error_count := 0, ts_sec := fb_tv_sec f,
                  ts_usec := fb_tv_usec f, jpg_buf_len := fb_len f, jpg_buf := fb_buf f\<rparr>"
      have rv: "res ?v = ESP_OK" using r by simp
      show ?thesis
        using Some True send_frame_boundary_sent[OF rv, where tick = tick and d = d and e = e]
          send_frame_facts(5)[OF rv, where tick = tick and d = d and e = e]
        by (auto simp: stream_iter_def Let_def case_prod_unfold ready_def count_simps)
    next
      case False
      let ?v1 = "v\<lparr>fb := Some f, error_count := 0, ts_sec := fb_tv_sec f,
                   ts_usec := fb_tv_usec f\<rparr>"
      let ?v2 = "fst (convert_frame ?v1 f (jpg e))"
      have rv: "res ?v2 = ESP_OK" using r by (simp add: convert_frame_facts)
      have cf: "convert_failed ?v2 (jpg e) = (\<not> frame_encoded (jpg e))"
        using i by (simp add: convert_failed_iff)
      show ?thesis
        using Some False cf send_frame_boundary_sent[OF rv, where tick = tick and d = d and e = e]
          send_frame_facts(5)[OF rv, where tick = tick and d = d and e = e]
        by (auto simp: stream_iter_def Let_def case_prod_unfold ready_def count_simps
            convert_frame_facts)
    qed
  qed
qed

lemma stream_loop_boundary_sent:
  assumes "running v"
  shows "count is_boundary_sent (snd (snd (stream_loop tick d v es)))
           \<le> count is_ready (snd (snd (stream_loop tick d v es))) \<and>
         count is_ready (snd (snd (stream_loop tick d v es)))
           \<le> Suc (count is_boundary_sent (snd (snd (stream_loop tick d v es)))) \<and>
         (\<not> fst (stream_loop tick d v es) \<longrightarrow>
            count is_boundary_sent (snd (snd (stream_loop tick d v es)))
              = count is_ready (snd (snd (stream_loop tick d v es))))"
  using assms
proof (induction es arbitrary: v)
  case Nil
  then show ?case by (simp add: count_simps)
next
  case (Cons e es)
  note b = stream_iter_boundary_sent[OF Cons.prems, of tick d e]
  show ?case
  proof (cases "fst (stream_iter tick d v e)")
    case Break
    then show ?thesis using b
      by (simp add: stream_loop_unfold del: stream_loop.simps)
  next
    case Continue
    have r1: "running (fst (snd (stream_iter tick d v e)))"
      using stream_iter_running[OF Cons.prems Continue] .
    have eq: "count is_boundary_sent (snd (snd (stream_iter tick d v e)))
                = count is_ready (snd (snd (stream_iter tick d v e)))"
      using b Continue by (auto split: if_splits)
    show ?thesis
      using Continue Cons.IH[OF r1] eq
      by (simp add: stream_loop_unfold count_simps del: stream_loop.simps)
  qed
qed

lemma stream_trace_boundary_sent:
  "count is_boundary_sent (stream_trace tick d ec st es)
     \<le> count is_ready (stream_trace tick d ec st es) \<and>
   count is_ready (stream_trace tick d ec st es)
     \<le> Suc (count is_boundary_sent (stream_trace tick d ec st es))"
proof (cases "st = ESP_OK")
  case True
  then show ?thesis
    using stream_loop_boundary_sent[OF running_start, of tick d ec es]
    by (simp add: stream_trace_def stream_handler_unfold count_simps)
next
  case False
  then show ?thesis by (simp add: stream_trace_def stream_handler_def count_simps)
qed

text \<open>
  C4. In every session the handler hands as many boundary markers to the connection as
  frames were acquired and are at hand as JPEG (acquired as JPEG, or converted with
  success); the connection took all of them but at most one, the marker whose send
  failed and closed the session. A session in which \<open>n\<close> passes deliver their frame and
  the next pass has a frame but a chunk send that fails returns the error of that send
  after exactly \<open>n\<close> delivered frames, and holds no frame or buffer afterwards.
\<close>

theorem boundaries_match_frames:
  "count is_boundary (stream_trace tick d ec st es) = count is_ready (stream_trace tick d ec st es) \<and>
   count is_boundary_sent (stream_trace tick d ec st es)
     \<le> count is_boundary (stream_trace tick d ec st es) \<and>
   count is_boundary (stream_trace tick d ec st es)
     \<le> Suc (count is_boundary_sent (stream_trace tick d ec st es)) \<and>
   ((\<forall>e \<in> set good. delivers e) \<and> send_failure bad \<longrightarrow>
      fst (stream_handler tick d ec ESP_OK (good @ bad # rest)) = Returned (send_error bad) \<and>
      send_error bad \<noteq> ESP_OK \<and>
      count is_delivered (stream_trace tick d ec ESP_OK (good @ bad # rest)) = length good \<and>
      balanced (stream_trace tick d ec ESP_OK (good @ bad # rest)))"
  using stream_trace_boundaries[of tick d ec st es]
    stream_trace_boundary_sent[of tick d ec st es]
    stream_handler_sink_fails[of good bad tick d ec rest]
    stream_handler_balanced[of tick d ec ESP_OK "good @ bad # rest"]
  by (auto simp: send_failure_def)

theorem boundaries_match_frames_witness:
  "count is_boundary
     (stream_trace 1 33 0 ESP_OK (four_good @ env_gone jpeg_frame # [env_good jpeg_frame])) = 5 \<and>
   fst (stream_handler 1 33 0 ESP_OK (four_good @ env_gone jpeg_frame # [env_good jpeg_frame]))
     = Returned ESP_FAIL \<and>
   count is_delivered
     (stream_trace 1 33 0 ESP_OK (four_good @ env_gone jpeg_frame # [env_good jpeg_frame])) = 4 \<and>
   balanced
     (stream_trace 1 33 0 ESP_OK (four_good @ env_gone jpeg_frame # [env_good jpeg_frame]))"
proof -
  have g: "\<forall>e \<in> set four_good. delivers e"
    by (simp add: four_good_def sample_defs guard_defs)
  have b: "send_failure (env_gone jpeg_frame)" "send_error (env_gone jpeg_frame) = ESP_FAIL"
    by (simp_all add: sample_defs guard_defs)
  have r: "count is_ready
     (stream_trace 1 33 0 ESP_OK (four_good @ env_gone jpeg_frame # [env_good jpeg_frame])) = 5"
    by (simp add: four_good_def sample_defs stream_defs hlen_defs count_def guard_defs)
  have l: "length four_good = 4" by (simp add: four_good_def)
  show ?thesis
    using boundaries_match_frames
      [where tick = 1 and d = 33 and ec = 0 and st = ESP_OK
         and es = "four_good @ env_gone jpeg_frame # [env_good jpeg_frame]"
         and good = four_good and bad = "env_gone jpeg_frame"
         and rest = "[env_good jpeg_frame]"]
      g b r l
    by simp
qed




section \<open>Pacing of the stream\<close>

lemma acquire_v11_ok:
  assumes "res_v11 v = ESP_OK" and "delivers_v11 e"
  shows "res_v11 (fst (acquire_v11 v e)) = ESP_OK"
    and "count is_delay (snd (acquire_v11 v e)) = 0"
  using assms
  by (auto simp: acquire_v11_def delivers_v11_def Let_def count_def split: option.splits)

lemma send_parts_v11_ok:
  assumes "res_v11 v = ESP_OK" and "delivers_v11 e"
  shows "res_v11 (fst (send_parts_v11 v e)) = ESP_OK"
    and "count is_delay (snd (send_parts_v11 v e)) = 0"
  using assms
  by (auto simp: send_parts_v11_def delivers_v11_def Let_def count_def)

lemma release_buffers_v11_ok:
  "res_v11 (fst (release_buffers_v11 v)) = res_v11 v"
  "count is_delay (snd (release_buffers_v11 v)) = 0"
  by (auto simp: release_buffers_v11_def count_def split: option.splits)

lemma pace_v11_ok:
  "res_v11 (fst (pace_v11 tick d v e)) = res_v11 v"
  "snd (pace_v11 tick d v e) = (if d = 0 then [] else [delay_ticks tick (unat d)])"
  by (auto simp: pace_v11_def Let_def word_greater_zero_iff)

lemma stream_iter_v11_paced:
  assumes "res_v11 v = ESP_OK" and "delivers_v11 e"
  shows "fst (stream_iter_v11 tick d v e) = Continue \<and>
         count is_delay (snd (snd (stream_iter_v11 tick d v e))) = (if d = 0 then 0 else 1) \<and>
         (d \<noteq> 0 \<longrightarrow> last (snd (snd (stream_iter_v11 tick d v e))) = delay_ticks tick (unat d))"
proof -
  let ?a = "acquire_v11 v e"
  let ?s = "send_parts_v11 (fst ?a) e"
  let ?r = "release_buffers_v11 (fst ?s)"
  have ra: "res_v11 (fst ?a) = ESP_OK" using acquire_v11_ok(1)[OF assms] .
  have rs: "res_v11 (fst ?s) = ESP_OK" using send_parts_v11_ok(1)[OF ra assms(2)] .
  have rr: "res_v11 (fst ?r) = ESP_OK" using rs by (simp add: release_buffers_v11_ok)
  show ?thesis
    using rr acquire_v11_ok(2)[OF assms] send_parts_v11_ok(2)[OF ra assms(2)]
    by (simp add: stream_iter_v11_def case_prod_unfold release_buffers_v11_ok pace_v11_ok
        count_simps delay_ticks_def)
qed

lemma stream_iter_v11_res:
  "fst (stream_iter_v11 tick d v e) = Continue \<Longrightarrow>
     res_v11 (fst (snd (stream_iter_v11 tick d v e))) = ESP_OK"
  by (simp add: stream_iter_v11_def case_prod_unfold pace_v11_ok split: if_splits)

lemma stream_loop_v11_res:
  "res_v11 v = ESP_OK \<Longrightarrow> \<not> fst (stream_loop_v11 tick d v es) \<Longrightarrow>
     res_v11 (fst (snd (stream_loop_v11 tick d v es))) = ESP_OK"
proof (induction es arbitrary: v)
  case Nil
  then show ?case by simp
next
  case (Cons e es)
  show ?case
  proof (cases "fst (stream_iter_v11 tick d v e)")
    case Break
    then show ?thesis using Cons.prems(2) by (simp add: case_prod_unfold)
  next
    case Continue
    then show ?thesis
      using Cons.IH[OF stream_iter_v11_res[OF Continue]] Cons.prems(2)
      by (simp add: case_prod_unfold)
  qed
qed

lemma stream_loop_v11_reach:
  assumes "stream_loop_v11 tick d (stream_start_v11 lf fc) es = (False, v, t)"
  shows "res_v11 v = ESP_OK"
  using stream_loop_v11_res[of "stream_start_v11 lf fc" tick d es] assms
  by (simp add: stream_start_v11_def)

text \<open>
  Against C8 as stated: in version 1.1 with \<open>stream_delay_ms = 0\<close>, a pass that delivers
  its frame goes on to the next acquisition without any call of \<open>vTaskDelay\<close>.
\<close>

theorem pacing_v11_skipped_at_zero:
  "fst (stream_iter_v11 1 0 (stream_start_v11 0 0) (env_good_v11 jpeg_frame)) = Continue \<and>
   count is_delay
     (snd (snd (stream_iter_v11 1 0 (stream_start_v11 0 0) (env_good_v11 jpeg_frame)))) = 0"
  by (simp add: v11_defs sample_defs count_def)

text \<open>
  C8, amended. Version 1.2: in every state the loop reaches, a pass in which a frame is at
  hand and every send succeeds ends with the call
  \<open>vTaskDelay(stream_delay_ms / portTICK_PERIOD_MS)\<close>, whatever the value of
  \<open>stream_delay_ms\<close> (zero included), and goes on to the next acquisition. Version 1.1:
  such a pass ends with that call when \<open>stream_delay_ms\<close> is above zero and makes no call
  of \<open>vTaskDelay\<close> when it is zero.
\<close>

theorem pacing_after_delivery:
  "(stream_loop tick d (stream_start ec) es = (False, v, t) \<and> ready e \<and> send_error e = ESP_OK
      \<longrightarrow> fst (stream_iter tick d v e) = Continue \<and>
          last (snd (snd (stream_iter tick d v e))) = delay_ticks tick (unat d) \<and>
          count is_delay (snd (snd (stream_iter tick d v e))) = 1) \<and>
   (stream_loop_v11 tick d (stream_start_v11 lf fc) es1 = (False, v1, t1) \<and> delivers_v11 e1
      \<longrightarrow> fst (stream_iter_v11 tick d v1 e1) = Continue \<and>
          count is_delay (snd (snd (stream_iter_v11 tick d v1 e1))) = (if d = 0 then 0 else 1) \<and>
          (d \<noteq> 0 \<longrightarrow>
             last (snd (snd (stream_iter_v11 tick d v1 e1))) = delay_ticks tick (unat d)))"
proof -
  have a: "fst (stream_iter tick d v e) = Continue \<and>
          last (snd (snd (stream_iter tick d v e))) = delay_ticks tick (unat d) \<and>
          count is_delay (snd (snd (stream_iter tick d v e))) = 1"
    if "stream_loop tick d (stream_start ec) es = (False, v, t)" "ready e" "send_error e = ESP_OK"
  proof -
    have n: "\<not> send_failure e" "\<not> encode_failure e" "\<not> acquire_abort (error_count v) e"
      using that(2,3)
      by (auto simp: send_failure_def encode_failure_def acquire_abort_def ready_def
          split: option.splits)
    show ?thesis using stream_iter_all[OF stream_loop_reach[OF that(1)], of tick d e] n that(2,3)
      by simp
  qed
  have b: "fst (stream_iter_v11 tick d v1 e1) = Continue \<and>
          count is_delay (snd (snd (stream_iter_v11 tick d v1 e1))) = (if d = 0 then 0 else 1) \<and>
          (d \<noteq> 0 \<longrightarrow>
             last (snd (snd (stream_iter_v11 tick d v1 e1))) = delay_ticks tick (unat d))"
    if "stream_loop_v11 tick d (stream_start_v11 lf fc) es1 = (False, v1, t1)" "delivers_v11 e1"
    using stream_iter_v11_paced[OF stream_loop_v11_reach[OF that(1)] that(2), of tick d] .
  show ?thesis using a b by blast
qed

theorem pacing_after_delivery_witness:
  "last (snd (snd (stream_iter 1 0 (stream_start 0) (env_good jpeg_frame)))) = Task_delay 0 \<and>
   count is_delay (snd (snd (stream_iter 1 0 (stream_start 0) (env_good jpeg_frame)))) = 1 \<and>
   count is_delay
     (snd (snd (stream_iter_v11 1 33 (stream_start_v11 0 0) (env_good_v11 raw_frame)))) = 1 \<and>
   last (snd (snd (stream_iter_v11 1 33 (stream_start_v11 0 0) (env_good_v11 raw_frame))))
     = Task_delay 33"
proof -
  have a: "stream_loop 1 0 (stream_start 0) [] = (False, stream_start 0, [])" by simp
  have b: "ready (env_good jpeg_frame)" "send_error (env_good jpeg_frame) = ESP_OK"
    by (simp_all add: sample_defs guard_defs)
  have c: "stream_loop_v11 1 33 (stream_start_v11 0 0) [] = (False, stream_start_v11 0 0, [])"
    by simp
  have e: "delivers_v11 (env_good_v11 raw_frame)"
    by (simp add: delivers_v11_def env_good_v11_def sample_defs)
  show ?thesis
    using pacing_after_delivery
      [where tick = 1 and d = 0 and ec = 0 and es = "[]" and v = "stream_start 0" and t = "[]"
         and e = "env_good jpeg_frame"]
      pacing_after_delivery
      [where tick = 1 and d = 33 and lf = 0 and fc = 0 and ?es1.0 = "[]"
         and ?v1.0 = "stream_start_v11 0 0" and ?t1.0 = "[]" and ?e1.0 = "env_good_v11 raw_frame"]
      a b c e
    by (simp add: delay_ticks_def)
qed


section \<open>The error counter across sessions\<close>

lemma replicate_11: "replicate 11 x = [x, x, x, x, x, x, x, x, x, x, x]"
  by (simp add: eval_nat_numeral)

lemma no_frame_pass:
  "stream_iter tick d v env_no_frame =
    (if error_count v + 1 > 10
     then (Break, v\<lparr>fb := None, error_count := error_count v + 1, res := ESP_FAIL\<rparr>,
           [Fb_get None])
     else (Continue, v\<lparr>fb := None, error_count := error_count v + 1\<rparr>,
           [Fb_get None, Task_delay (50 div tick)]))"
  by (simp add: stream_iter_def env_no_frame_def Let_def delay_ticks_def)

lemmas abort_eval = replicate_11 stream_handler_def stream_start_def no_frame_pass
  stream_cleanup_def Let_def

text \<open>
  Against C5 as stated: after a first session that met eleven failed acquisitions in a
  row the static counter is 11, so the next session starts with 11, not with zero, and is
  aborted by its first failed acquisition.
\<close>

theorem error_count_survives_session:
  "run_sessions 1 33 0 [replicate 11 env_no_frame] = 11 \<and>
   fst (stream_handler 1 33 (run_sessions 1 33 0 [replicate 11 env_no_frame]) ESP_OK
          [env_no_frame]) = Returned ESP_FAIL"
  by (simp add: abort_eval)

lemma run_sessions_snoc:
  "run_sessions tick d c (ss @ [es])
     = fst (snd (stream_handler tick d (run_sessions tick d c ss) ESP_OK es))"
  by (induction ss arbitrary: c) simp_all

text \<open>
  C5, amended. \<open>error_count\<close> is a function-static variable shared by all stream sessions:
  a session starts with the value the sessions before it left (zero at boot). In every
  state the loop reaches, a failed acquisition adds one to the counter and an acquired
  frame sets it to zero, so it is zero after every delivered frame. When a session has
  returned, the counter is zero, or it is above 10, and it is above 10 exactly when the
  last call of the session was a failed acquisition (the abort).
\<close>

theorem error_count_is_static:
  "run_sessions tick d c (ss @ [es])
     = fst (snd (stream_handler tick d (run_sessions tick d c ss) ESP_OK es)) \<and>
   error_count (stream_start ec) = ec \<and>
   (stream_loop tick d (stream_start ec) es = (False, v, t) \<longrightarrow>
      error_count (fst (snd (stream_iter tick d v e))) = next_count (error_count v) e \<and>
      (delivers e \<longrightarrow> error_count (fst (snd (stream_iter tick d v e))) = 0)) \<and>
   (fst (stream_handler tick d ec ESP_OK es) \<noteq> Serving \<longrightarrow>
      (fst (snd (stream_handler tick d ec ESP_OK es)) = 0 \<or>
       10 < fst (snd (stream_handler tick d ec ESP_OK es))) \<and>
      (10 < fst (snd (stream_handler tick d ec ESP_OK es))
         \<longleftrightarrow> last (stream_trace tick d ec ESP_OK es) = Fb_get None))"
proof -
  have a: "error_count (fst (snd (stream_iter tick d v e))) = next_count (error_count v) e \<and>
      (delivers e \<longrightarrow> error_count (fst (snd (stream_iter tick d v e))) = 0)"
    if "stream_loop tick d (stream_start ec) es = (False, v, t)"
    using stream_iter_all[OF stream_loop_reach[OF that], of tick d e]
    by (auto simp: next_count_def delivers_def ready_def split: option.splits)
  have b: "(fst (snd (stream_handler tick d ec ESP_OK es)) = 0 \<or>
       10 < fst (snd (stream_handler tick d ec ESP_OK es))) \<and>
      (10 < fst (snd (stream_handler tick d ec ESP_OK es))
         \<longleftrightarrow> last (stream_trace tick d ec ESP_OK es) = Fb_get None)"
    if "fst (stream_handler tick d ec ESP_OK es) \<noteq> Serving"
  proof -
    have c: "fst (stream_loop tick d (stream_start ec) es)"
      using that by (simp add: stream_handler_unfold split: if_splits)
    show ?thesis
      using stream_loop_all[OF running_start, of tick d ec es] c
        stream_loop_closed_nonempty[OF c]
      by (auto simp: stream_handler_unfold stream_trace_def)
  qed
  show ?thesis using a b run_sessions_snoc[of tick d c ss es] error_count_start[of ec] by blast
qed

theorem error_count_is_static_witness:
  "fst (snd (stream_handler 1 33 0 ESP_OK (replicate 11 env_no_frame))) = 11 \<and>
   last (stream_trace 1 33 0 ESP_OK (replicate 11 env_no_frame)) = Fb_get None \<and>
   error_count (fst (snd (stream_iter 1 33 (stream_start 7) (env_good jpeg_frame)))) = 0"
proof -
  have a: "stream_handler 1 33 0 ESP_OK (replicate 11 env_no_frame) =
           (Returned ESP_FAIL, 11, snd (snd (stream_handler 1 33 0 ESP_OK (replicate 11 env_no_frame))))"
    by (simp add: abort_eval)
  have b: "stream_loop 1 33 (stream_start 7) [] = (False, stream_start 7, [])" by simp
  have c: "delivers (env_good jpeg_frame)" by (simp add: sample_defs guard_defs)
  have n: "fst (stream_handler 1 33 0 ESP_OK (replicate 11 env_no_frame)) \<noteq> Serving"
    and k: "fst (snd (stream_handler 1 33 0 ESP_OK (replicate 11 env_no_frame))) = 11"
    using a by (metis fst_conv handler_result.distinct(1), metis fst_conv snd_conv)
  show ?thesis
    using error_count_is_static
      [where tick = 1 and d = 33 and ec = 0 and es = "replicate 11 env_no_frame"
         and c = 0 and ss = "[]"]
      error_count_is_static
      [where tick = 1 and d = 33 and ec = 7 and es = "[]" and v = "stream_start 7"
         and t = "[]" and e = "env_good jpeg_frame" and c = 0 and ss = "[]"]
      b c n k
    by (simp add: next_count_def env_good_def)
qed



section \<open>The abort guard and the failures in a row\<close>

lemma trailing_failures_snoc:
  "trailing_failures (es @ [e]) = (if cam e = None then Suc (trailing_failures es) else 0)"
  by (simp add: trailing_failures_def)

lemma trailing_failures_nil: "trailing_failures [] = 0"
  by (simp add: trailing_failures_def)

lemma trailing_failures_all:
  "no_frame_yet es \<Longrightarrow> trailing_failures es = length es"
  by (induction es rule: rev_induct)
    (simp_all add: trailing_failures_snoc trailing_failures_nil no_frame_yet_def)

lemma stream_loop_snoc:
  assumes "stream_loop tick d v0 (es @ [e]) = (False, v1, t1)"
  shows "\<not> fst (stream_loop tick d v0 es) \<and>
         fst (stream_iter tick d (fst (snd (stream_loop tick d v0 es))) e) = Continue \<and>
         v1 = fst (snd (stream_iter tick d (fst (snd (stream_loop tick d v0 es))) e))"
proof -
  have a: "\<not> fst (stream_loop tick d v0 es)"
    using assms by (auto simp: stream_loop_append split: if_splits)
  then show ?thesis using assms
    by (cases "fst (stream_iter tick d (fst (snd (stream_loop tick d v0 es))) e)")
      (auto simp add: stream_loop_append stream_loop_unfold simp del: stream_loop.simps(2))
qed

lemma stream_loop_running:
  "running v0 \<Longrightarrow> \<not> fst (stream_loop tick d v0 es) \<Longrightarrow>
     running (fst (snd (stream_loop tick d v0 es)))"
  using stream_loop_all[of v0 tick d es] by simp

lemma stream_loop_counter:
  assumes "stream_loop tick d (stream_start ec) es = (False, v, t)"
  shows "error_count v =
           (if no_frame_yet es then ec + of_nat (length es) else of_nat (trailing_failures es))"
  using assms
proof (induction es arbitrary: v t rule: rev_induct)
  case Nil
  then show ?case by (auto simp: no_frame_yet_def stream_start_def)
next
  case (snoc e es)
  let ?l = "stream_loop tick d (stream_start ec) es"
  note s = stream_loop_snoc[OF snoc.prems]
  have p: "?l = (False, fst (snd ?l), snd (snd ?l))" using s by (cases ?l) simp
  have r: "running (fst (snd ?l))" using stream_loop_reach[OF p] .
  have c: "error_count v = next_count (error_count (fst (snd ?l))) e"
    using stream_iter_all[OF r, of tick d e] s by simp
  show ?case
    using c snoc.IH[OF p] trailing_failures_all[of es]
    by (auto simp: next_count_def no_frame_yet_def trailing_failures_snoc split: option.splits)
qed

lemma small_word_gt: "n \<le> 11 \<Longrightarrow> ((10 :: 32 word) < of_nat n) = (10 < n)"
proof -
  assume "n \<le> 11"
  then have "unat (of_nat n :: 32 word) = n" by (simp add: unat_of_nat)
  then show ?thesis by (simp add: word_less_nat_alt)
qed

lemma stream_loop_counter_zero:
  assumes "stream_loop tick d (stream_start ec) es = (False, v, t)"
    and "ec = 0 \<or> \<not> no_frame_yet es"
  shows "error_count v = of_nat (trailing_failures es) \<and> trailing_failures es \<le> 10"
  using assms
proof (induction es arbitrary: v t rule: rev_induct)
  case Nil
  then show ?case by (auto simp: trailing_failures_nil stream_start_def no_frame_yet_def)
next
  case (snoc e es)
  let ?l = "stream_loop tick d (stream_start ec) es"
  note s = stream_loop_snoc[OF snoc.prems(1)]
  have p: "?l = (False, fst (snd ?l), snd (snd ?l))" using s by (cases ?l) simp
  have r: "running (fst (snd ?l))" using stream_loop_reach[OF p] .
  note it = stream_iter_all[OF r, of tick d e]
  have c: "error_count v = next_count (error_count (fst (snd ?l))) e" using it s by simp
  have na: "\<not> acquire_abort (error_count (fst (snd ?l))) e" using it s by (auto split: if_splits)
  show ?case
  proof (cases "cam e")
    case None
    have "ec = 0 \<or> \<not> no_frame_yet es"
      using snoc.prems(2) None by (simp add: no_frame_yet_def)
    note ih = snoc.IH[OF p this]
    have "\<not> (10 :: 32 word) < of_nat (Suc (trailing_failures es))"
      using na None ih by (simp add: acquire_abort_def add.commute)
    then have "\<not> 10 < Suc (trailing_failures es)"
      using small_word_gt[of "Suc (trailing_failures es)"] ih by simp
    then show ?thesis using c None ih
      by (simp add: next_count_def trailing_failures_snoc add.commute)
  next
    case (Some f)
    then show ?thesis using c by (simp add: next_count_def trailing_failures_snoc)
  qed
qed

lemma abort_at_eleventh:
  assumes "stream_loop tick d (stream_start ec) es = (False, v, t)"
    and "ec = 0 \<or> \<not> no_frame_yet es"
  shows "acquire_abort (error_count v) e = (cam e = None \<and> trailing_failures es = 10)"
proof -
  note z = stream_loop_counter_zero[OF assms]
  have "((10 :: 32 word) < of_nat (Suc (trailing_failures es))) = (10 < Suc (trailing_failures es))"
    using small_word_gt[of "Suc (trailing_failures es)"] z by simp
  then show ?thesis using z by (auto simp: acquire_abort_def add.commute)
qed

lemma replicate_10: "replicate 10 x = [x, x, x, x, x, x, x, x, x, x]"
  by (simp add: eval_nat_numeral)

lemma no_frame_guards:
  "\<not> send_failure env_no_frame" "\<not> encode_failure env_no_frame" "cam env_no_frame = None"
  by (simp_all add: env_no_frame_def guard_defs not_encoded_def)

lemma ten_failures:
  "fst (stream_loop 1 33 (stream_start 0) (replicate 10 env_no_frame)) = False"
  "fst (snd (stream_loop 1 33 (stream_start 0) (replicate 10 env_no_frame))) = stream_start 10"
  by (simp_all add: replicate_10 stream_start_def no_frame_pass)

text \<open>
  Against C3 as stated: a first session that met eleven failed acquisitions in a row
  leaves the static counter at 11. The next session then meets a single failed
  acquisition, with no send failure and no conversion failure, and is closed with
  \<open>ESP_FAIL\<close>: one failure in a row, not more than ten. The same script in a session
  that starts with the counter at zero is still served. The counter is then 12, so the
  session after that is closed by its first failed acquisition too.
\<close>

theorem one_failure_closes_next_session:
  "run_sessions 1 33 0 [replicate 11 env_no_frame] = 11 \<and>
   fst (stream_handler 1 33 11 ESP_OK [env_no_frame]) = Returned ESP_FAIL \<and>
   trailing_failures [env_no_frame] = 1 \<and>
   \<not> send_failure env_no_frame \<and>
   \<not> encode_failure env_no_frame \<and>
   fst (stream_handler 1 33 0 ESP_OK [env_no_frame]) = Serving \<and>
   run_sessions 1 33 0 [replicate 11 env_no_frame, [env_no_frame]] = 12"
  by (simp add: abort_eval no_frame_guards trailing_failures_def)

text \<open>
  C3, amended. The handler's result is that of the state machine \<open>session_end\<close>: the
  session stays in its loop until the first pass in which (a) a chunk send fails, (b) the
  acquisition fails and the static \<open>error_count\<close>, one added, is above 10, or (c) the
  conversion of a frame that is not JPEG fails, and is closed there with a result other
  than \<open>ESP_OK\<close>; if no pass of the script meets a guard the handler is still serving. In
  every state the loop reaches, the pass leaves the loop exactly when one of the three
  guards holds. The counter of guard (b) is the handler's static variable: a session
  starts with the value \<open>ec\<close> that the sessions before it left; as long as the session
  has acquired no frame the counter is \<open>ec\<close> plus the number of its passes, and from its
  first acquired frame on it is the number of acquisitions that failed in a row. In a
  session that started with the counter at zero, or that has acquired a frame, that
  number is at most 10 while the loop runs, and guard (b) holds exactly at the eleventh
  failed acquisition in a row.
\<close>

theorem stream_closes_by_three_guards:
  "fst (stream_handler tick d ec ESP_OK es) = session_end ec es \<and>
   fst (stream_handler tick d ec ESP_OK es) \<noteq> Returned ESP_OK \<and>
   (stream_loop tick d (stream_start ec) es = (False, v, t) \<longrightarrow>
      (fst (stream_iter tick d v e) = Break)
        = (send_failure e \<or> acquire_abort (error_count v) e \<or> encode_failure e) \<and>
      error_count v
        = (if no_frame_yet es then ec + of_nat (length es) else of_nat (trailing_failures es)) \<and>
      (ec = 0 \<or> \<not> no_frame_yet es \<longrightarrow>
         trailing_failures es \<le> 10 \<and>
         acquire_abort (error_count v) e = (cam e = None \<and> trailing_failures es = 10)))"
proof -
  have "(fst (stream_iter tick d v e) = Break)
        = (send_failure e \<or> acquire_abort (error_count v) e \<or> encode_failure e)"
    if "stream_loop tick d (stream_start ec) es = (False, v, t)"
    using stream_iter_all[OF stream_loop_reach[OF that], of tick d e] by (auto split: if_splits)
  moreover have "error_count v
        = (if no_frame_yet es then ec + of_nat (length es) else of_nat (trailing_failures es))"
    if "stream_loop tick d (stream_start ec) es = (False, v, t)"
    using stream_loop_counter[OF that] .
  moreover have "trailing_failures es \<le> 10 \<and>
         acquire_abort (error_count v) e = (cam e = None \<and> trailing_failures es = 10)"
    if "stream_loop tick d (stream_start ec) es = (False, v, t)"
      and "ec = 0 \<or> \<not> no_frame_yet es"
    using stream_loop_counter_zero[OF that] abort_at_eleventh[OF that] by simp
  ultimately show ?thesis
    using stream_handler_end[of tick d ec es] stream_handler_not_ok[of tick d ec es] by blast
qed

theorem stream_closes_by_three_guards_witness:
  "fst (stream_handler 1 33 0 ESP_OK (replicate 11 env_no_frame)) = Returned ESP_FAIL \<and>
   fst (stream_handler 1 33 0 ESP_OK (replicate 10 env_no_frame)) = Serving \<and>
   fst (stream_loop 1 33 (stream_start 0) (replicate 10 env_no_frame)) = False \<and>
   fst (snd (stream_loop 1 33 (stream_start 0) (replicate 10 env_no_frame))) = stream_start 10 \<and>
   trailing_failures (replicate 10 env_no_frame) = 10 \<and>
   acquire_abort 10 env_no_frame \<and>
   fst (stream_iter 1 33 (stream_start 10) env_no_frame) = Break \<and>
   fst (stream_handler 1 33 0 ESP_OK sample_script) = Returned ESP_FAIL \<and>
   fst (stream_iter 1 33 (stream_start 0) env_bad_encode) = Break \<and>
   encode_failure env_bad_encode"
proof -
  let ?l = "stream_loop 1 33 (stream_start 0) (replicate 10 env_no_frame)"
  have a: "session_end 0 (replicate 11 env_no_frame) = Returned ESP_FAIL"
    "session_end 0 (replicate 10 env_no_frame) = Serving"
    by (simp_all add: replicate_11 replicate_10 no_frame_guards acquire_abort_def next_count_def)
  have b: "?l = (False, stream_start 10, snd (snd ?l))"
    using ten_failures by (simp add: prod_eq_iff)
  have c: "error_count (stream_start 10) = 10"
    by (simp add: stream_start_def)
  have f: "session_end 0 sample_script = Returned ESP_FAIL"
    by (simp add: sample_defs guard_defs)
  have g: "stream_loop 1 33 (stream_start 0) [] = (False, stream_start 0, [])"
    by simp
  have h: "encode_failure env_bad_encode"
    by (simp add: sample_defs guard_defs)
  note t = stream_closes_by_three_guards
      [where tick = 1 and d = 33 and ec = 0 and es = "replicate 10 env_no_frame"
         and v = "stream_start 10" and t = "snd (snd ?l)" and e = env_no_frame]
  have k: "trailing_failures (replicate 10 env_no_frame) = 10"
    by (simp add: trailing_failures_def no_frame_guards)
  have i: "acquire_abort 10 env_no_frame"
    "fst (stream_iter 1 33 (stream_start 10) env_no_frame) = Break"
    using t b c k no_frame_guards by auto
  show ?thesis
    using stream_closes_by_three_guards
      [where tick = 1 and d = 33 and ec = 0 and es = "replicate 11 env_no_frame"]
      stream_closes_by_three_guards
      [where tick = 1 and d = 33 and ec = 0 and es = sample_script]
      stream_closes_by_three_guards
      [where tick = 1 and d = 33 and ec = 0 and es = "[]" and v = "stream_start 0"
         and t = "[]" and e = env_bad_encode]
      stream_closes_by_three_guards
      [where tick = 1 and d = 33 and ec = 0 and es = "replicate 10 env_no_frame"]
      ten_failures a f g h i k
    by simp
qed


section \<open>The capture request\<close>











section \<open>The control handler\<close>

lemmas atoi_defs = atoi_def isspace_def digit_of_def Let_def

lemmas control_sample_defs = sizes_sample_def config_sample_def req_sample_def

lemma config_same: "sensor c = Some s \<Longrightarrow> c\<lparr>sensor := Some s, stream_delay_ms := stream_delay_ms c\<rparr> = c"
  by (cases c) simp

lemma apply_control_unknown:
  "\<not> recognized variable \<Longrightarrow> apply_control K rq variable val_text s dl = (ESP_FAIL, s, dl, [])"
  by (simp add: apply_control_def recognized_def Let_def)

lemma cmd_handler_unknown:
  assumes "\<not> recognized variable" and "query_len rq \<noteq> 0" and "query_str rq = ESP_OK"
    and "var_key rq = Some variable" and "val_key rq = Some val_text"
  shows "cmd_handler K rq c = (ESP_FAIL, c, [Ctl_send_500])"
  using assms
  by (auto simp: cmd_handler_def apply_control_unknown config_same Let_def split: option.splits)

lemma cmd_handler_malformed:
  assumes "malformed rq"
  shows "cmd_handler K rq c = (ESP_FAIL, c, [Ctl_send_404])"
  using assms
  by (auto simp: cmd_handler_def malformed_def split: option.splits esp_err_t.splits)

text \<open>
  Against C6 as stated: a request with \<open>var=brightness\<close>, a name the handler does not
  know, is answered with 500, which is not a client error.
\<close>

theorem unknown_variable_is_server_error:
  "response_status (snd (snd (cmd_handler sizes_sample (req_sample ''brightness'' ''1'' True)
                               config_sample))) = Some 500 \<and>
   \<not> client_error (response_status (snd (snd (cmd_handler sizes_sample
                               (req_sample ''brightness'' ''1'' True) config_sample))))"
  by (simp add: cmd_handler_def req_sample_def config_sample_def apply_control_def Let_def
      response_status_def client_error_def)

text \<open>
  C6, amended. A request whose query string holds \<open>var\<close> and \<open>val\<close> but whose \<open>var\<close> is not
  one of the five names is answered with the server error 500 (\<open>httpd_resp_send_500\<close>),
  the handler returns \<open>ESP_FAIL\<close>, no setter of the sensor is called and the Capture
  Configuration is unchanged. A request with an empty query string, or whose query string
  cannot be read or lacks \<open>var\<close> or \<open>val\<close>, is answered with the client error 404 and leaves
  the configuration unchanged.
\<close>

theorem control_rejects_bad_requests:
  "(\<not> recognized variable \<and> query_len rq \<noteq> 0 \<and> query_str rq = ESP_OK \<and>
    var_key rq = Some variable \<and> val_key rq = Some val_text \<longrightarrow>
      cmd_handler K rq c = (ESP_FAIL, c, [Ctl_send_500]) \<and>
      server_error (response_status [Ctl_send_500])) \<and>
   (malformed rq \<longrightarrow>
      cmd_handler K rq c = (ESP_FAIL, c, [Ctl_send_404]) \<and>
      client_error (response_status [Ctl_send_404]))"
  using cmd_handler_unknown[of variable rq val_text K c] cmd_handler_malformed[of rq K c]
  by (simp add: response_status_def server_error_def client_error_def)

theorem control_rejects_bad_requests_witness:
  "cmd_handler sizes_sample (req_sample ''brightness'' ''1'' True) config_sample
     = (ESP_FAIL, config_sample, [Ctl_send_500]) \<and>
   cmd_handler sizes_sample ((req_sample ''quality'' ''10'' True)\<lparr>val_key := None\<rparr>)
       config_sample
     = (ESP_FAIL, config_sample, [Ctl_send_404])"
proof -
  have a: "\<not> recognized ''brightness''" by (simp add: recognized_def)
  have b: "malformed ((req_sample ''quality'' ''10'' True)\<lparr>val_key := None\<rparr>)"
    by (simp add: malformed_def req_sample_def)
  show ?thesis
    using control_rejects_bad_requests
      [where variable = "''brightness''" and val_text = "''1''" and K = sizes_sample
         and rq = "req_sample ''brightness'' ''1'' True" and c = config_sample]
      control_rejects_bad_requests
      [where K = sizes_sample
         and rq = "(req_sample ''quality'' ''10'' True)\<lparr>val_key := None\<rparr>"
         and c = config_sample]
      a b
    by (simp add: req_sample_def)
qed


lemma clamp_max_min: "lo \<le> hi \<Longrightarrow> clamp lo hi x = max lo (min hi x)"
  by (simp add: clamp_def Let_def max_def min_def)

lemma framesize_from_value_range:
  "sizes_ok K \<Longrightarrow> 0 \<le> framesize_from_value K v \<and> framesize_from_value K v < FRAMESIZE_INVALID K"
  by (simp add: framesize_from_value_def sizes_ok_def Let_def split: option.splits)

lemma requested_in_range:
  "sizes_ok K \<Longrightarrow> value_in_range K (psram rq) variable (requested K rq variable val_text)"
  using framesize_from_value_range[of K "Some val_text"]
  by (auto simp: value_in_range_def requested_def sizes_ok_def min_def)

lemma config_sensor: "c\<lparr>sensor := x, stream_delay_ms := stream_delay_ms c\<rparr> = c\<lparr>sensor := x\<rparr>"
  by (cases c) simp

lemma config_delay: "sensor c = Some s \<Longrightarrow> c\<lparr>sensor := Some s, stream_delay_ms := x\<rparr> = c\<lparr>stream_delay_ms := x\<rparr>"
  by (cases c) simp

lemma apply_control_spec:
  assumes "recognized variable"
  shows "apply_control K rq variable val_text s dl =
     (if variable = ''stream_delay''
      then (ESP_OK, s, word_of_int (requested K rq variable val_text), [])
      else (let k = (if variable = ''framesize'' then Set_framesize
                     else if variable = ''quality'' then Set_quality
                     else if variable = ''vflip'' then Set_vflip else Set_hmirror)
            in (drv rq, sensor_set k (requested K rq variable val_text) (drv rq) s, dl,
                [Sensor_set k (requested K rq variable val_text) (drv rq)])))"
  using assms
  by (auto simp: apply_control_def recognized_def requested_def clamp_max_min Let_def min_def)

lemma cmd_handler_recognized:
  assumes "well_formed rq variable val_text" and "sensor c = Some s" and "recognized variable"
  shows "fst (snd (cmd_handler K rq c)) =
           (if accepted rq variable then set_field variable (requested K rq variable val_text) c
            else c)"
    and "response_status (snd (snd (cmd_handler K rq c))) =
           (if accepted rq variable then Some 200 else Some 500)"
    and "fst (cmd_handler K rq c) = (if accepted rq variable then resp rq else ESP_FAIL)"
  using assms
  by (auto simp: cmd_handler_def well_formed_def apply_control_spec accepted_def set_field_def
      sensor_set_def response_status_def config_same config_sensor config_delay Let_def
      recognized_def)


lemma unat_delay: "0 \<le> x \<Longrightarrow> x \<le> 500 \<Longrightarrow> unat (word_of_int x :: 16 word) = nat x"
proof -
  assume a: "0 \<le> x" "x \<le> 500"
  have "take_bit 16 x = x" using a by (simp add: take_bit_int_eq_self)
  then show ?thesis by (simp add: unat_eq_nat_uint uint_word_of_int_eq)
qed

lemma set_field_in_range:
  assumes "recognized variable" and "value_in_range K ps variable x" and "in_range K ps c"
  shows "in_range K ps (set_field variable x c)"
proof -
  have "variable = ''framesize'' \<or> variable = ''quality'' \<or> variable = ''stream_delay''
    \<or> variable = ''vflip'' \<or> variable = ''hmirror''"
    using assms(1) by (simp add: recognized_def)
  then show ?thesis
  proof (elim disjE)
    assume "variable = ''framesize''"
    then show ?thesis using assms(2,3)
      by (cases "sensor c")
        (simp_all add: value_in_range_def in_range_def set_field_def status_in_range_def)
  next
    assume "variable = ''quality''"
    then show ?thesis using assms(2,3)
      by (cases "sensor c")
        (simp_all add: value_in_range_def in_range_def set_field_def status_in_range_def)
  next
    assume v: "variable = ''stream_delay''"
    then have x: "33 \<le> x" "x \<le> 500" using assms(2) by (simp_all add: value_in_range_def)
    then have "unat (word_of_int x :: 16 word) = nat x" using unat_delay[of x] by simp
    moreover have "33 \<le> nat x" "nat x \<le> 500" using x by linarith+
    ultimately show ?thesis using v assms(3)
      by (simp add: in_range_def set_field_def)
  next
    assume "variable = ''vflip''"
    then show ?thesis using assms(2,3)
      by (cases "sensor c")
        (simp_all add: value_in_range_def in_range_def set_field_def status_in_range_def)
  next
    assume "variable = ''hmirror''"
    then show ?thesis using assms(2,3)
      by (cases "sensor c")
        (simp_all add: value_in_range_def in_range_def set_field_def status_in_range_def)
  qed
qed

text \<open>
  C7. For a request that names one of the five variables (query string read, \<open>var\<close> and
  \<open>val\<close> present, sensor at hand): the value applied is the requested one clamped into
  the range of the field (quality into 5..63, stream delay into 33..500, flip and mirror
  into 0..1, the frame size into the valid classes and, without PSRAM, down to SVGA); the
  answer is 200 unless the sensor driver itself reports an error, whatever the value,
  so no value is rejected for being out of range; and a configuration whose fields are
  in range stays so.
\<close>

theorem control_values_clamped:
  "sizes_ok K \<and> well_formed rq variable val_text \<and> sensor c = Some s \<and> recognized variable \<longrightarrow>
     fst (snd (cmd_handler K rq c)) =
       (if accepted rq variable then set_field variable (requested K rq variable val_text) c
        else c) \<and>
     response_status (snd (snd (cmd_handler K rq c))) =
       (if accepted rq variable then Some 200 else Some 500) \<and>
     value_in_range K (psram rq) variable (requested K rq variable val_text) \<and>
     (in_range K (psram rq) c \<longrightarrow> in_range K (psram rq) (fst (snd (cmd_handler K rq c))))"
proof (intro impI, elim conjE)
  assume a: "sizes_ok K" "well_formed rq variable val_text" "sensor c = Some s"
    "recognized variable"
  note h = cmd_handler_recognized[OF a(2) a(3) a(4), of K]
  have r: "value_in_range K (psram rq) variable (requested K rq variable val_text)"
    using requested_in_range[OF a(1)] .
  have i: "in_range K (psram rq) (fst (snd (cmd_handler K rq c)))" if "in_range K (psram rq) c"
    using h(1) set_field_in_range[OF a(4) r that] that by simp
  show "fst (snd (cmd_handler K rq c)) =
       (if accepted rq variable then set_field variable (requested K rq variable val_text) c
        else c) \<and>
     response_status (snd (snd (cmd_handler K rq c))) =
       (if accepted rq variable then Some 200 else Some 500) \<and>
     value_in_range K (psram rq) variable (requested K rq variable val_text) \<and>
     (in_range K (psram rq) c \<longrightarrow> in_range K (psram rq) (fst (snd (cmd_handler K rq c))))"
    using h(1,2) r i by simp
qed

theorem control_values_clamped_witness:
  "fst (snd (cmd_handler sizes_sample (req_sample ''quality'' ''999'' True) config_sample)) =
     config_sample\<lparr>sensor := Some \<lparr>framesize = 11, quality = 63, vflip = 0, hmirror = 0\<rparr>\<rparr> \<and>
   response_status
     (snd (snd (cmd_handler sizes_sample (req_sample ''quality'' ''999'' True) config_sample)))
     = Some 200 \<and>
   fst (snd (cmd_handler sizes_sample (req_sample ''framesize'' ''FHD'' False) config_sample)) =
     config_sample \<and>
   response_status
     (snd (snd (cmd_handler sizes_sample (req_sample ''framesize'' ''FHD'' False) config_sample)))
     = Some 200 \<and>
   in_range sizes_sample False
     (fst (snd (cmd_handler sizes_sample (req_sample ''framesize'' ''FHD'' False) config_sample)))"
proof -
  have k: "sizes_ok sizes_sample" by (simp add: sizes_ok_def sizes_sample_def)
  have w: "well_formed (req_sample v x ps) v x" for v x ps
    by (simp add: well_formed_def req_sample_def)
  have s: "sensor config_sample = Some \<lparr>framesize = 11, quality = 12, vflip = 0, hmirror = 0\<rparr>"
    by (simp add: config_sample_def)
  have r: "recognized ''quality''" "recognized ''framesize''" by (simp_all add: recognized_def)
  have a: "accepted (req_sample v x ps) v" for v x ps by (simp add: accepted_def req_sample_def)
  have q: "requested sizes_sample (req_sample ''quality'' ''999'' True) ''quality'' ''999'' = 63"
    by (simp add: requested_def atoi_defs)
  have l: "strcasecmp_eq ''FHD'' ''fhd''" "\<not> strcasecmp_eq ''FHD'' ''svga''"
    by (simp_all add: strcasecmp_eq_def tolower_def)
  have f: "requested sizes_sample (req_sample ''framesize'' ''FHD'' False) ''framesize'' ''FHD'' = 11"
    using l by (simp add: requested_def framesize_from_value_def control_sample_defs)
  have i: "in_range sizes_sample False config_sample"
    by (simp add: in_range_def status_in_range_def control_sample_defs)
  have p: "psram (req_sample ''framesize'' ''FHD'' False) = False" by (simp add: req_sample_def)
  show ?thesis
    using control_values_clamped
      [where K = sizes_sample and rq = "req_sample ''quality'' ''999'' True"
         and variable = "''quality''" and val_text = "''999''" and c = config_sample
         and s = "\<lparr>framesize = 11, quality = 12, vflip = 0, hmirror = 0\<rparr>"]
      control_values_clamped
      [where K = sizes_sample and rq = "req_sample ''framesize'' ''FHD'' False"
         and variable = "''framesize''" and val_text = "''FHD''" and c = config_sample
         and s = "\<lparr>framesize = 11, quality = 12, vflip = 0, hmirror = 0\<rparr>"]
      k w s r a q f i p
    by (simp add: set_field_def config_sample_def)
qed

section \<open>Starting the servers twice\<close>
















end
